theory Spec2Isabelle
  imports Complex_Main "HOL-Library.AList"
begin

section \<open>Data model (src/types/index.ts)\<close>

datatype health = Healthy | Unhealthy | Unknown

record GeoLocation =
  country :: string
  countryCode :: string
  city :: string
  lat :: real
  lon :: real

text \<open>
  A JavaScript number that comes out of \<open>parseInt\<close>: NaN, an integer that a double
  holds, or an infinity. The port fields are such numbers. An optional or nullable field
  is an \<open>option\<close>. The optional fields of \<open>PNode\<close> that the service never writes
  (storage, stake, vote data, score) are left out.
\<close>

datatype number = NaN | Num int | PlusInfinity | MinusInfinity

record PNode =
  pubkey :: string
  gossipPort :: number
  tpuPort :: number
  rpcPort :: number
  version :: "string option"
  health :: health
  latency :: "int option"
  lastUpdate :: int
  isPNode :: bool
  ip :: "string option"
  location :: "GeoLocation option"
  featureSet :: "int option"
  shredVersion :: "int option"

record NetworkStats =
  totalNodes :: nat
  healthyNodes :: nat
  avgLatency :: int
  tps :: nat
  currentSlot :: nat

datatype ConnectionStatus = Connected | Connecting | Disconnected | Error

section \<open>JavaScript string helpers\<close>

text \<open>\<open>s.split(':')\<close>: the pieces between the colons; never the empty array.\<close>

fun split_colon :: "string \<Rightarrow> string list" where
  "split_colon [] = [[]]"
| "split_colon (c # cs) =
     (if c = CHR '':'' then [] # split_colon cs
      else (case split_colon cs of
              [] \<Rightarrow> [[c]]
            | p # ps \<Rightarrow> (c # p) # ps))"

text \<open>\<open>xs[i]\<close> on an array: \<open>undefined\<close> out of range.\<close>

definition js_index :: "'a list \<Rightarrow> nat \<Rightarrow> 'a option" where
  "js_index xs i = (if i < length xs then Some (xs ! i) else None)"

text \<open>Truthiness of a \<open>string | null | undefined\<close> value: absent and empty are falsy.\<close>

definition truthy :: "string option \<Rightarrow> bool" where
  "truthy v = (case v of None \<Rightarrow> False | Some s \<Rightarrow> s \<noteq> [])"

text \<open>\<open>a || b\<close> on such values.\<close>

definition js_or :: "string option \<Rightarrow> string option \<Rightarrow> string option" where
  "js_or a b = (if truthy a then a else b)"

definition is_digit :: "char \<Rightarrow> bool" where
  "is_digit c = (c \<in> set ''0123456789'')"

definition is_lower_hex :: "char \<Rightarrow> bool" where
  "is_lower_hex c = (c \<in> set ''abcdef0123456789'')"

definition is_js_space :: "char \<Rightarrow> bool" where
  "is_js_space c = (of_char c \<in> {9, 10, 11, 12, 13, 32, 160 :: nat})"

definition digit_value :: "char \<Rightarrow> nat option" where
  "digit_value c =
     (let n = of_char c :: nat in
      if 48 \<le> n \<and> n \<le> 57 then Some (n - 48)
      else if 97 \<le> n \<and> n \<le> 122 then Some (n - 87)
      else if 65 \<le> n \<and> n \<le> 90 then Some (n - 55)
      else None)"

definition is_radix_digit :: "nat \<Rightarrow> char \<Rightarrow> bool" where
  "is_radix_digit r c = (case digit_value c of None \<Rightarrow> False | Some d \<Rightarrow> d < r)"

definition digits_value :: "nat \<Rightarrow> string \<Rightarrow> int" where
  "digits_value r ds = foldl (\<lambda>acc c. acc * int r + int (case digit_value c of None \<Rightarrow> 0 | Some d \<Rightarrow> d)) 0 ds"

text \<open>
  The double nearest to an integer, ties to the even mantissa: exact below \<open>2 ^ 53\<close>,
  rounded to 53 significant bits above, an infinity from \<open>2 ^ 1024 - 2 ^ 970\<close> on.
\<close>

function bit_length :: "nat \<Rightarrow> nat" where
  "bit_length n = (if n = 0 then 0 else Suc (bit_length (n div 2)))"
  by pat_completeness auto
termination
  by (relation "measure id") auto

definition to_double :: "int \<Rightarrow> number" where
  "to_double n =
     (let a = nat \<bar>n\<bar> in
      if a < 2 ^ 53 then Num n
      else
        (let e = bit_length a - 53;
             q = a div 2 ^ e;
             r = a mod 2 ^ e;
             half = 2 ^ (e - 1);
             q1 = (if half < r \<or> (r = half \<and> odd q) then q + 1 else q);
             v = q1 * 2 ^ e
         in if 2 ^ 1024 \<le> v then (if n < 0 then MinusInfinity else PlusInfinity)
            else Num (if n < 0 then - int v else int v)))"

text \<open>
  \<open>parseInt(s)\<close> with no radix: leading white space is skipped, a sign is read, a
  \<open>0x\<close> prefix selects base 16, and the longest prefix of digits is the value, as
  the double nearest to it; NaN when there is no digit. \<open>parseInt(undefined)\<close> parses
  the text \<open>undefined\<close> and is NaN. (Past twenty significant digits the language lets
  an engine approximate the value; here it is the nearest double throughout.)
\<close>

definition parseInt :: "string option \<Rightarrow> number" where
  "parseInt v =
     (case v of
        None \<Rightarrow> NaN
      | Some s \<Rightarrow>
          (let t = dropWhile is_js_space s;
               neg = (t \<noteq> [] \<and> hd t = CHR ''-'');
               u = (if t \<noteq> [] \<and> (hd t = CHR ''-'' \<or> hd t = CHR ''+'') then tl t else t);
               hex = (take 2 u = ''0x'' \<or> take 2 u = ''0X'');
               r = (if hex then 16 else 10);
               w = (if hex then drop 2 u else u);
               ds = takeWhile (is_radix_digit r) w
           in if ds = [] then NaN
              else to_double (if neg then - digits_value r ds else digits_value r ds)))"

text \<open>
  The text of a number in a template string. Below \<open>10 ^ 21\<close> it is the decimal digits.
  From there on it is the exponent form with the fewest digits that still read back as
  the same double: \<open>shortest_at v x k\<close> is the \<open>k\<close>-digit number and the exponent, if
  there is one, for the value \<open>v\<close> of \<open>x + 1\<close> digits, the nearer of the two
  neighbours and the even one on a tie.
\<close>

definition digit_char :: "nat \<Rightarrow> char" where
  "digit_char d = ''0123456789'' ! d"

function string_of_nat :: "nat \<Rightarrow> string" where
  "string_of_nat n =
     (if n < 10 then [digit_char n]
      else string_of_nat (n div 10) @ [digit_char (n mod 10)])"
  by pat_completeness auto
termination
  by (relation "measure id") auto

definition reads_as :: "nat \<Rightarrow> nat \<Rightarrow> bool" where
  "reads_as w v = (to_double (int w) = Num (int v))"

definition shortest_at :: "nat \<Rightarrow> nat \<Rightarrow> nat \<Rightarrow> (nat \<times> nat) option" where
  "shortest_at v x k =
     (let p = 10 ^ (x + 1 - k);
          lo = v div p;
          hi = lo + 1;
          lo_ok = reads_as (lo * p) v;
          hi_ok = reads_as (hi * p) v;
          lo_near = (v - lo * p < hi * p - v \<or> (v - lo * p = hi * p - v \<and> even lo))
      in if lo_ok \<and> (lo_near \<or> \<not> hi_ok) then Some (lo, x)
         else if hi_ok then (if hi = 10 ^ k then Some (10 ^ (k - 1), x + 1) else Some (hi, x))
         else None)"

fun shortest :: "nat \<Rightarrow> nat \<Rightarrow> nat \<Rightarrow> nat \<Rightarrow> nat \<times> nat" where
  "shortest v x k 0 = (v, x)"
| "shortest v x k (Suc fuel) =
     (case shortest_at v x k of Some c \<Rightarrow> c | None \<Rightarrow> shortest v x (Suc k) fuel)"

definition exponent_text :: "nat \<Rightarrow> string" where
  "exponent_text v =
     (let x = length (string_of_nat v) - 1;
          (c, x1) = shortest v x 1 (x + 1);
          ds = string_of_nat c
      in (if length ds = 1 then ds else hd ds # CHR ''.'' # tl ds) @ ''e+'' @ string_of_nat x1)"

definition nat_text :: "nat \<Rightarrow> string" where
  "nat_text v = (if v < 10 ^ 21 then string_of_nat v else exponent_text v)"

definition number_text :: "number \<Rightarrow> string" where
  "number_text x =
     (case x of
        NaN \<Rightarrow> ''NaN''
      | PlusInfinity \<Rightarrow> ''Infinity''
      | MinusInfinity \<Rightarrow> ''-Infinity''
      | Num n \<Rightarrow> if n < 0 then CHR ''-'' # nat_text (nat (- n)) else nat_text (nat n))"

section \<open>Version classifier (services/pnode.ts, isXandeumVersion)\<close>

text \<open>
  The two regular expressions of the source are anchored sequences of a character class
  with a quantifier, \<open>{n}\<close> or \<open>+\<close>. \<open>re_test\<close> is \<open>RegExp.test\<close> for such a
  pattern between \<open>^\<close> and \<open>$\<close>: it tries every length a \<open>+\<close> may take.
\<close>

datatype quant = Exactly nat | OneOrMore

type_synonym regex = "((char \<Rightarrow> bool) \<times> quant) list"

fun re_test :: "regex \<Rightarrow> string \<Rightarrow> bool" where
  "re_test [] s = (s = [])"
| "re_test ((p, Exactly n) # r) s =
     (n \<le> length s \<and> list_all p (take n s) \<and> re_test r (drop n s))"
| "re_test ((p, OneOrMore) # r) s =
     list_ex (\<lambda>k. list_all p (take k s) \<and> re_test r (drop k s)) [1..<Suc (length s)]"

definition lit :: "char \<Rightarrow> (char \<Rightarrow> bool) \<times> quant" where
  "lit c = ((\<lambda>x. x = c), Exactly 1)"

text \<open>\<open>/^0\.\d{3}\.\d{5}$/\<close>\<close>

definition pnodePattern :: regex where
  "pnodePattern =
     [lit CHR ''0'', lit CHR ''.'', (is_digit, Exactly 3), lit CHR ''.'', (is_digit, Exactly 5)]"

text \<open>\<open>/^\d+\.\d+\.\d+-[a-f0-9]{8}$/\<close>\<close>

definition vnodePattern :: regex where
  "vnodePattern =
     [(is_digit, OneOrMore), lit CHR ''.'', (is_digit, OneOrMore), lit CHR ''.'',
      (is_digit, OneOrMore), lit CHR ''-'', (is_lower_hex, Exactly 8)]"

definition isXandeumVersion :: "string option \<Rightarrow> bool" where
  "isXandeumVersion v =
     (if \<not> truthy v then False
      else re_test pnodePattern (the v) \<or> re_test vnodePattern (the v))"

text \<open>
  The two shapes in the words of the specification: a leading literal 0, a 3-digit
  segment and a 5-digit segment, dot-separated; three numeric segments, dot-separated,
  then a hyphen and eight lowercase hexadecimal characters.
\<close>

definition stable_release_shape :: "string \<Rightarrow> bool" where
  "stable_release_shape s =
     (\<exists>a b. s = ''0.'' @ a @ ''.'' @ b \<and> length a = 3 \<and> list_all is_digit a
            \<and> length b = 5 \<and> list_all is_digit b)"

definition development_build_shape :: "string \<Rightarrow> bool" where
  "development_build_shape s =
     (\<exists>a b c h. s = a @ ''.'' @ b @ ''.'' @ c @ ''-'' @ h
            \<and> a \<noteq> [] \<and> list_all is_digit a \<and> b \<noteq> [] \<and> list_all is_digit b
            \<and> c \<noteq> [] \<and> list_all is_digit c \<and> length h = 8 \<and> list_all is_lower_hex h)"

section \<open>The service (services/pnode.ts, class PNodeService)\<close>

definition KNOWN_PNODE_ADDRESSES :: "string list" where
  "KNOWN_PNODE_ADDRESSES =
     [''157.173.125.223:9001'', ''157.173.197.106:9001'', ''161.156.85.177:9001'',
      ''194.238.24.91:9001'', ''157.173.197.103:9001'', ''194.238.24.87:9001'',
      ''154.38.175.38:9001'', ''194.238.24.94:9001'', ''194.238.24.96:9001'',
      ''37.60.250.209:9001'', ''37.60.255.42:9001'', ''194.238.24.95:9001'',
      ''38.242.207.242:9001'', ''109.199.96.218:9001'', ''194.238.24.97:9001'',
      ''160.202.38.95:9001'']"

definition XANDEUM_RPC_ENDPOINTS :: "string list" where
  "XANDEUM_RPC_ENDPOINTS =
     [''http://xand-rpc2.devnet.xandeum.com:8899'', ''https://api.mainnet-beta.solana.com'',
      ''https://solana-mainnet.g.alchemy.com/v2/demo'', ''https://rpc.ankr.com/solana'']"

text \<open>
  The private fields of the service, and the entry of \<open>localStorage\<close> under
  \<open>RPC_ENDPOINT_KEY\<close> that the service writes.
\<close>

record PNodeService =
  customPNodes :: "string list"
  isConnected :: bool
  localProxyAvailable :: "bool option"
  centralRpcEndpoint :: "string option"
  lastError :: "string option"
  storedRpcEndpoint :: "string option"

definition getAllPNodeAddresses :: "PNodeService \<Rightarrow> string list" where
  "getAllPNodeAddresses svc = KNOWN_PNODE_ADDRESSES @ customPNodes svc"

subsection \<open>rpcCallToNode\<close>

text \<open>
  What can be thrown: \<open>JSON.stringify\<close> throws a \<open>TypeError\<close> before the first
  \<open>try\<close>; inside the two \<open>try\<close> blocks \<open>fetch\<close> rejects (network failure, CORS),
  the abort timer fires, \<open>response.json()\<close> rejects, or \<open>data.error\<close> is read of
  \<open>null\<close>.
\<close>

datatype exn = NetworkError | AbortError | SyntaxError | TypeError

text \<open>
  A positional parameter (\<open>params: unknown[]\<close>): a value that \<open>JSON.stringify\<close> can
  write, or one on which it throws (a \<open>BigInt\<close>, a cyclic object). Every call in the
  service leaves \<open>params\<close> at its default, the empty array.
\<close>

datatype param = Plain string | Unserialisable






text \<open>\<open>Math.round\<close>: the nearest integer, halves upwards.\<close>

definition Math_round :: "real \<Rightarrow> int" where
  "Math_round x = \<lfloor>x + 1 / 2\<rfloor>"










subsection \<open>The call as a table of outcomes\<close>










subsection \<open>Cluster discovery\<close>

text \<open>One entry of a \<open>getClusterNodes\<close> result.\<close>

record ClusterNode =
  cn_pubkey :: "string option"
  cn_gossip :: "string option"
  cn_tpu :: "string option"
  cn_rpc :: "string option"
  cn_version :: "string option"
  cn_featureSet :: "int option"
  cn_shredVersion :: "int option"

text \<open>\<open>s?.split(':')\<close>\<close>

definition opt_split :: "string option \<Rightarrow> string list option" where
  "opt_split v = map_option split_colon v"

text \<open>\<open>s?.split(':')[i]\<close>: \<open>undefined\<close> when \<open>s\<close> is absent or has no such piece.\<close>

definition opt_part :: "string option \<Rightarrow> nat \<Rightarrow> string option" where
  "opt_part v i = (case opt_split v of None \<Rightarrow> None | Some ps \<Rightarrow> js_index ps i)"

definition mapClusterNodeToPNode :: "int \<Rightarrow> ClusterNode \<Rightarrow> PNode" where
  "mapClusterNodeToPNode now node =
     (let gossipParts = (case opt_split (cn_gossip node) of None \<Rightarrow> [] | Some ps \<Rightarrow> ps);
          rpcParts = (case opt_split (cn_rpc node) of None \<Rightarrow> [] | Some ps \<Rightarrow> ps);
          ip0 = js_or (js_or (js_index gossipParts 0) (js_index rpcParts 0)) (Some [])
      in \<lparr> pubkey = (if truthy (cn_pubkey node) then the (cn_pubkey node) else []),
           gossipPort = (if truthy (js_index gossipParts 1) then parseInt (js_index gossipParts 1)
                         else Num 0),
           tpuPort = (if truthy (cn_tpu node) then parseInt (opt_part (cn_tpu node) 1) else Num 0),
           rpcPort = (if truthy (js_index rpcParts 1) then parseInt (js_index rpcParts 1)
                      else Num 9001),
           version = js_or (cn_version node) None,
           health = Healthy,
           latency = None,
           lastUpdate = now,
           isPNode = isXandeumVersion (cn_version node),
           ip = ip0,
           location = None,
           featureSet = cn_featureSet node,
           shredVersion = cn_shredVersion node \<rparr>)"

definition knownIps :: "string list" where
  "knownIps = map (\<lambda>addr. hd (split_colon addr)) KNOWN_PNODE_ADDRESSES"

definition xandeumNodesOf :: "ClusterNode list \<Rightarrow> ClusterNode list" where
  "xandeumNodesOf allNodes = filter (\<lambda>node. isXandeumVersion (cn_version node)) allNodes"

definition knownIpNodesOf :: "ClusterNode list \<Rightarrow> ClusterNode list" where
  "knownIpNodesOf allNodes =
     filter (\<lambda>node. let ip0 = js_or (opt_part (cn_gossip node) 0) (opt_part (cn_rpc node) 0)
                     in truthy ip0 \<and> the ip0 \<in> set knownIps) allNodes"

text \<open>
  \<open>combinedNodes\<close>, a \<open>Map\<close> in insertion order: \<open>set\<close> on a key that is there
  replaces the value in place, on a new key it appends.
\<close>

definition combine_step :: "(string \<times> ClusterNode) list \<Rightarrow> ClusterNode \<Rightarrow> (string \<times> ClusterNode) list" where
  "combine_step m node =
     (if truthy (cn_pubkey node) then AList.update (the (cn_pubkey node)) node m else m)"

definition combinedNodesOf :: "ClusterNode list \<Rightarrow> (string \<times> ClusterNode) list" where
  "combinedNodesOf allNodes = foldl combine_step [] (xandeumNodesOf allNodes @ knownIpNodesOf allNodes)"

text \<open>
  The keys that the loop over the two subsets can set in \<open>combinedNodes\<close>: the
  \<open>pubkey\<close> of an entry of either subset that passes the guard \<open>if (node.pubkey)\<close>,
  so an entry whose \<open>pubkey\<close> is absent or empty carries no key. For such a key, the
  entry that the loop meets last under it.
\<close>

definition carried_keys :: "ClusterNode list \<Rightarrow> string set" where
  "carried_keys allNodes =
     {k. \<exists>entry \<in> set (xandeumNodesOf allNodes) \<union> set (knownIpNodesOf allNodes).
           cn_pubkey entry = Some k \<and> k \<noteq> []}"

definition kept_entry :: "ClusterNode list \<Rightarrow> string \<Rightarrow> ClusterNode" where
  "kept_entry allNodes k =
     last (filter (\<lambda>entry. cn_pubkey entry = Some k)
             (xandeumNodesOf allNodes @ knownIpNodesOf allNodes))"

text \<open>Lines 523 to 550: from the array of the response to the value returned.\<close>

definition selectClusterNodes :: "int \<Rightarrow> ClusterNode list \<Rightarrow> PNode list" where
  "selectClusterNodes now allNodes =
     (let pnodes = map snd (combinedNodesOf allNodes) in
      if length pnodes = 0 then map (mapClusterNodeToPNode now) allNodes
      else map (mapClusterNodeToPNode now) pnodes)"

text \<open>What one endpoint does with the \<open>getClusterNodes\<close> request.\<close>

datatype cluster_reply =
    Fetch_rejects
  | Responds_not_ok
  | Body_not_json
  | Body_has_error
  | Result_not_array
  | Result_array "ClusterNode list"

fun try_endpoints ::
  "(nat \<Rightarrow> string \<Rightarrow> cluster_reply) \<Rightarrow> int \<Rightarrow> PNodeService \<Rightarrow> nat \<Rightarrow> string list
     \<Rightarrow> PNodeService \<times> PNode list option"
where
  "try_endpoints env now svc i [] = (svc, None)"
| "try_endpoints env now svc i (endpoint # rest) =
     (case env i endpoint of
        Fetch_rejects \<Rightarrow> try_endpoints env now svc (Suc i) rest
      | Responds_not_ok \<Rightarrow> try_endpoints env now svc (Suc i) rest
      | Body_not_json \<Rightarrow> try_endpoints env now svc (Suc i) rest
      | Body_has_error \<Rightarrow> try_endpoints env now svc (Suc i) rest
      | Result_not_array \<Rightarrow> try_endpoints env now svc (Suc i) rest
      | Result_array allNodes \<Rightarrow>
          (svc\<lparr>centralRpcEndpoint := Some endpoint, storedRpcEndpoint := Some endpoint\<rparr>,
           Some (selectClusterNodes now allNodes)))"

definition tryGetClusterNodesFromRpc ::
  "(nat \<Rightarrow> string \<Rightarrow> cluster_reply) \<Rightarrow> int \<Rightarrow> PNodeService \<Rightarrow> PNodeService \<times> PNode list option"
where
  "tryGetClusterNodesFromRpc env now svc =
     (let endpoints = (if truthy (centralRpcEndpoint svc)
                       then the (centralRpcEndpoint svc) # XANDEUM_RPC_ENDPOINTS
                       else XANDEUM_RPC_ENDPOINTS)
      in try_endpoints env now svc 0 endpoints)"

subsection \<open>Direct queries of the known addresses\<close>

text \<open>
  The \<open>result\<close> types of the four methods, as the calls declare them. A health result is
  a string, an object with a \<open>status\<close>, or any other value that is not \<open>null\<close>.
  The entries of a \<open>getClusterNodes\<close> result are objects of the declared shape.
\<close>

datatype health_reply = Health_text string | Health_object string | Health_other

record version_reply =
  solana_core :: "string option"
  vr_version :: "string option"
  feature_set :: "int option"

record identity_reply =
  identity :: "string option"
  ir_pubkey :: "string option"

text \<open>
  What the four calls of \<open>rpcCallToNode\<close> for one address return: each a pair
  \<open>{result, latency}\<close>, \<open>None\<close> for a \<open>null\<close> result.
\<close>

record addr_replies =
  getHealth :: "health_reply option \<times> int"
  getVersion :: "version_reply option \<times> int"
  getIdentity :: "identity_reply option \<times> int"
  getClusterNodes :: "ClusterNode list option \<times> int"

text \<open>
  What the \<open>async\<close> function of \<open>batch.map\<close> returns for one address, and the
  number of times it ran \<open>connectedCount++\<close>.
\<close>

record query_result =
  node :: PNode
  clusterNodes :: "ClusterNode list option"
  reachable :: bool
  counted :: nat

text \<open>\<open>ip.replace(/\./g, '-')\<close>\<close>

definition dots_to_dashes :: "string \<Rightarrow> string" where
  "dots_to_dashes s = map (\<lambda>c. if c = CHR ''.'' then CHR ''-'' else c) s"

definition synthesized_key :: "string \<Rightarrow> number \<Rightarrow> string" where
  "synthesized_key ip0 port = ''pnode-'' @ dots_to_dashes ip0 @ ''-'' @ number_text port"

definition health_ok :: "health_reply \<Rightarrow> bool" where
  "health_ok r =
     (case r of
        Health_text s \<Rightarrow> s = ''ok''
      | Health_object status \<Rightarrow> status = ''ok''
      | Health_other \<Rightarrow> False)"

definition queryAddress :: "int \<Rightarrow> addr_replies \<Rightarrow> string \<Rightarrow> query_result" where
  "queryAddress now replies address =
     (let parts = split_colon address;
          ip0 = hd parts;
          portStr = js_index parts 1;
          port = (case parseInt portStr of
                    NaN \<Rightarrow> Num 9001
                  | Num p \<Rightarrow> if p = 0 then Num 9001 else Num p
                  | PlusInfinity \<Rightarrow> PlusInfinity
                  | MinusInfinity \<Rightarrow> MinusInfinity);
          healthResult = getHealth replies;
          (health1, latency1, count1) =
            (case fst healthResult of
               None \<Rightarrow> (Unknown, None, 0 :: nat)
             | Some r \<Rightarrow> (if health_ok r then Healthy else Unhealthy, Some (snd healthResult), 1));
          versionResult = getVersion replies;
          (version2, health2, latency2, count2) =
            (case fst versionResult of
               None \<Rightarrow> (None, health1, latency1, count1)
             | Some r \<Rightarrow>
                 (js_or (js_or (solana_core r) (vr_version r)) None,
                  if health1 = Unknown then Healthy else health1,
                  if latency1 = None then Some (snd versionResult) else latency1,
                  count1 + 1));
          identityResult = getIdentity replies;
          (identity3, health3, latency3) =
            (case fst identityResult of
               None \<Rightarrow> (None, health2, latency2)
             | Some r \<Rightarrow>
                 (js_or (js_or (identity r) (ir_pubkey r)) None,
                  if health2 = Unknown then Healthy else health2,
                  if latency2 = None then Some (snd identityResult) else latency2));
          clusterResult = getClusterNodes replies;
          (clusterNodes4, health4) =
            (case fst clusterResult of
               None \<Rightarrow> (None, health3)
             | Some ns \<Rightarrow> (Some ns, if health3 = Unknown then Healthy else health3));
          key = (if truthy identity3 then the identity3 else synthesized_key ip0 port)
      in \<lparr> node = \<lparr> pubkey = key, gossipPort = port, tpuPort = Num 0, rpcPort = port,
                    version = version2, health = health4, latency = latency3, lastUpdate = now,
                    isPNode = True, ip = Some ip0, location = None, featureSet = None,
                    shredVersion = None \<rparr>,
           clusterNodes = clusterNodes4,
           reachable = (health4 \<noteq> Unknown),
           counted = count2 \<rparr>)"

text \<open>The record pushed for a neighbour that a queried address reported.\<close>

definition neighbourNode :: "int \<Rightarrow> ClusterNode \<Rightarrow> PNode" where
  "neighbourNode now clusterNode =
     \<lparr> pubkey = the (cn_pubkey clusterNode),
       gossipPort = (if truthy (cn_gossip clusterNode) then parseInt (opt_part (cn_gossip clusterNode) 1)
                     else Num 0),
       tpuPort = (if truthy (cn_tpu clusterNode) then parseInt (opt_part (cn_tpu clusterNode) 1)
                  else Num 0),
       rpcPort = (if truthy (cn_rpc clusterNode) then parseInt (opt_part (cn_rpc clusterNode) 1)
                  else Num 9001),
       version = js_or (cn_version clusterNode) None,
       health = Unknown,
       latency = None,
       lastUpdate = now,
       isPNode = True,
       ip = opt_part (cn_gossip clusterNode) 0,
       location = None,
       featureSet = cn_featureSet clusterNode,
       shredVersion = cn_shredVersion clusterNode \<rparr>"

definition pushClusterNode :: "int \<Rightarrow> PNode list \<Rightarrow> ClusterNode \<Rightarrow> PNode list" where
  "pushClusterNode now nodes clusterNode =
     (if truthy (cn_pubkey clusterNode)
         \<and> \<not> list_ex (\<lambda>n. pubkey n = the (cn_pubkey clusterNode)) nodes
      then nodes @ [neighbourNode now clusterNode]
      else nodes)"

definition pushResult :: "int \<Rightarrow> PNode list \<Rightarrow> query_result \<Rightarrow> PNode list" where
  "pushResult now nodes result =
     (let nodes1 = nodes @ [node result] in
      case clusterNodes result of
        None \<Rightarrow> nodes1
      | Some cns \<Rightarrow> foldl (pushClusterNode now) nodes1 cns)"

text \<open>
  The loop over the batches: \<open>i\<close> runs in steps of \<open>batchSize\<close>, the batch is
  \<open>addresses.slice(i, i + batchSize)\<close>, its queries all finish before the results are
  pushed in order. \<open>rpc k address\<close> is what the calls for the address at position \<open>k\<close>
  return.
\<close>

definition batchSize :: nat where
  "batchSize = 8"

function queryBatches ::
  "(nat \<Rightarrow> string \<Rightarrow> addr_replies) \<Rightarrow> int \<Rightarrow> string list \<Rightarrow> nat \<Rightarrow> PNode list \<times> nat
     \<Rightarrow> PNode list \<times> nat"
where
  "queryBatches rpc now addresses i (nodes, connectedCount) =
     (if i < length addresses then
        (let batch = take batchSize (drop i addresses);
             results = map (\<lambda>(j, address). queryAddress now (rpc (i + j) address) address)
                           (enumerate 0 batch)
         in queryBatches rpc now addresses (i + batchSize)
              (foldl (pushResult now) nodes results,
               connectedCount + sum_list (map counted results)))
      else (nodes, connectedCount))"
  by pat_completeness auto
termination
  by (relation "measure (\<lambda>(rpc, now, addresses, i, acc). length addresses - i)")
     (auto simp: batchSize_def)

declare queryBatches.simps [simp del]

text \<open>The result of the query for the address at position \<open>k\<close>.\<close>

definition queryAt :: "(nat \<Rightarrow> string \<Rightarrow> addr_replies) \<Rightarrow> int \<Rightarrow> string list \<Rightarrow> nat \<Rightarrow> query_result" where
  "queryAt rpc now addresses k = queryAddress now (rpc k (addresses ! k)) (addresses ! k)"

text \<open>None of the four calls for an address gave a result.\<close>

definition all_calls_null :: "addr_replies \<Rightarrow> bool" where
  "all_calls_null replies =
     (fst (getHealth replies) = None \<and> fst (getVersion replies) = None
      \<and> fst (getIdentity replies) = None \<and> fst (getClusterNodes replies) = None)"

subsection \<open>Merging by identity key\<close>

text \<open>The condition under which the incoming record takes the place of the stored one.\<close>

definition takes_place :: "PNode option \<Rightarrow> PNode \<Rightarrow> bool" where
  "takes_place existing incoming =
     (case existing of
        None \<Rightarrow> True
      | Some e \<Rightarrow> (health incoming = Healthy \<and> health e \<noteq> Healthy)
                 \<or> (latency incoming \<noteq> None \<and> latency e = None))"

definition dedup_step :: "(string \<times> PNode) list \<Rightarrow> PNode \<Rightarrow> (string \<times> PNode) list" where
  "dedup_step uniqueNodes incoming =
     (let existing = map_of uniqueNodes (pubkey incoming) in
      if takes_place existing incoming then AList.update (pubkey incoming) incoming uniqueNodes
      else uniqueNodes)"

definition deduplicate :: "PNode list \<Rightarrow> PNode list" where
  "deduplicate nodes = map snd (foldl dedup_step [] nodes)"

text \<open>How much a health value tells: unknown least, healthy most.\<close>

definition health_rank :: "health \<Rightarrow> nat" where
  "health_rank h = (case h of Unknown \<Rightarrow> 0 | Unhealthy \<Rightarrow> 1 | Healthy \<Rightarrow> 2)"

text \<open>The map of the merge holds one entry for a key, and each record under its own key.\<close>

definition well_keyed :: "(string \<times> PNode) list \<Rightarrow> bool" where
  "well_keyed m = (distinct (map fst m) \<and> list_all (\<lambda>(k, v). pubkey v = k) m)"

subsection \<open>getPnodeGossip\<close>

definition unreachable_message :: "nat \<Rightarrow> string" where
  "unreachable_message n =
     ''Unable to reach any of the '' @ nat_text n
       @ '' known pNodes. The RPC ports may be firewalled or require authentication.''"

text \<open>The fallback, from line 604 on, for a list of addresses.\<close>

definition queryKnownAddresses ::
  "(nat \<Rightarrow> string \<Rightarrow> addr_replies) \<Rightarrow> int \<Rightarrow> PNodeService \<Rightarrow> string list
     \<Rightarrow> PNodeService \<times> PNode list"
where
  "queryKnownAddresses rpc now svc addresses =
     (let (nodes, connectedCount) = queryBatches rpc now addresses 0 ([], 0);
          svc1 = svc\<lparr>isConnected := (connectedCount > 0)\<rparr>;
          svc2 = (if connectedCount = 0 \<and> length nodes > 0
                  then svc1\<lparr>lastError := Some (unreachable_message (length nodes))\<rparr>
                  else svc1)
      in (svc2, deduplicate nodes))"

text \<open>
  \<open>getPnodeGossip\<close>. The replies of the endpoints and of \<open>rpcCallToNode\<close> come from
  \<open>env\<close> and \<open>rpc\<close>; what \<open>rpcCallToNode\<close> does to \<open>localProxyAvailable\<close> on the way
  is in its own model and not repeated here.
\<close>

definition getPnodeGossip ::
  "(nat \<Rightarrow> string \<Rightarrow> cluster_reply) \<Rightarrow> (nat \<Rightarrow> string \<Rightarrow> addr_replies) \<Rightarrow> int \<Rightarrow> PNodeService
     \<Rightarrow> PNodeService \<times> PNode list"
where
  "getPnodeGossip env rpc now svc =
     (let svc0 = svc\<lparr>lastError := None\<rparr>;
          (svc1, rpcNodes) = tryGetClusterNodesFromRpc env now svc0
      in if rpcNodes \<noteq> None \<and> length (the rpcNodes) > 0
         then (svc1\<lparr>isConnected := True\<rparr>, the rpcNodes)
         else queryKnownAddresses rpc now svc1 (getAllPNodeAddresses svc1))"

subsection \<open>getGeoLocation\<close>

text \<open>\<open>s.startsWith(p)\<close>\<close>

definition startsWith :: "string \<Rightarrow> string \<Rightarrow> bool" where
  "startsWith s p = (take (length p) s = p)"

text \<open>The guard of line 833: the addresses for which no request is sent.\<close>

definition geo_skipped :: "string \<Rightarrow> bool" where
  "geo_skipped ip0 =
     (ip0 = [] \<or> ip0 = ''0.0.0.0'' \<or> ip0 = ''127.0.0.1'' \<or> startsWith ip0 ''10.''
      \<or> startsWith ip0 ''192.168.'')"

text \<open>What the geolocation service does with one request.\<close>

datatype geo_reply =
    Geo_rejects
  | Geo_not_json
  | Geo_no_success
  | Geo_success GeoLocation

text \<open>
  What the enrichment does, in order: a call of \<open>getGeoLocation\<close> for an address, a
  request sent to the geolocation service, a pause of so many milliseconds.
\<close>

datatype event = Geo_lookup string | Geo_request string | Pause nat

text \<open>The location, if any, and what the call did.\<close>

definition getGeoLocation :: "geo_reply \<Rightarrow> string \<Rightarrow> GeoLocation option \<times> event list" where
  "getGeoLocation reply ip0 =
     (if geo_skipped ip0 then (None, [Geo_lookup ip0])
      else (case reply of
              Geo_rejects \<Rightarrow> (None, [Geo_lookup ip0, Geo_request ip0])
            | Geo_not_json \<Rightarrow> (None, [Geo_lookup ip0, Geo_request ip0])
            | Geo_no_success \<Rightarrow> (None, [Geo_lookup ip0, Geo_request ip0])
            | Geo_success loc \<Rightarrow> (Some loc, [Geo_lookup ip0, Geo_request ip0])))"

section \<open>The refresh hook (hooks/usePNodes.ts)\<close>

record HookState =
  nodes :: "PNode list"
  stats :: NetworkStats
  loading :: bool
  connectionStatus :: ConnectionStatus
  lastRefresh :: "int option"

text \<open>The state of the hook before the first refresh.\<close>

definition initialState :: HookState where
  "initialState =
     \<lparr> nodes = [],
       stats = \<lparr> totalNodes = 0, healthyNodes = 0, avgLatency = 0, tps = 0, currentSlot = 0 \<rparr>,
       loading = True,
       connectionStatus = Connecting,
       lastRefresh = None \<rparr>"

text \<open>\<open>xs.findIndex(p)\<close>: \<open>-1\<close> when no element satisfies \<open>p\<close>.\<close>

fun findIndex :: "('a \<Rightarrow> bool) \<Rightarrow> 'a list \<Rightarrow> int" where
  "findIndex p [] = - 1"
| "findIndex p (x # xs) =
     (if p x then 0 else (let k = findIndex p xs in if k < 0 then - 1 else k + 1))"

text \<open>
  \<open>enrichNodeWithGeo(node, index)\<close>: the update of \<open>setNodes\<close> applied to the
  published list, and what the call did.
\<close>

definition enrichNodeWithGeo :: "geo_reply \<Rightarrow> PNode \<Rightarrow> int \<Rightarrow> PNode list \<Rightarrow> PNode list \<times> event list" where
  "enrichNodeWithGeo reply candidate index prev =
     (if \<not> truthy (ip candidate) then (prev, [])
      else (case getGeoLocation reply (the (ip candidate)) of
              (None, evs) \<Rightarrow> (prev, evs)
            | (Some loc, evs) \<Rightarrow>
                (if 0 \<le> index \<and> nat index < length prev
                 then (prev[nat index := (prev ! nat index)\<lparr>location := Some loc\<rparr>], evs)
                 else (prev, evs))))"

text \<open>
  The loop of lines 92 to 100 over \<open>nodesWithIp\<close>, from position \<open>i\<close> on; the rest of
  the list is empty exactly when \<open>i\<close> is \<open>nodesWithIp.length - 1\<close>.
\<close>

fun enrichLoop ::
  "(nat \<Rightarrow> string \<Rightarrow> geo_reply) \<Rightarrow> PNode list \<Rightarrow> nat \<Rightarrow> PNode list \<Rightarrow> PNode list
     \<Rightarrow> PNode list \<times> event list"
where
  "enrichLoop geo sortedNodes i [] published = (published, [])"
| "enrichLoop geo sortedNodes i (candidate # rest) published =
     (let idx = findIndex (\<lambda>n. pubkey n = pubkey candidate) sortedNodes;
          (published1, evs) =
             enrichNodeWithGeo (geo i (case ip candidate of None \<Rightarrow> [] | Some a \<Rightarrow> a))
               candidate idx published;
          pause = (if rest \<noteq> [] then [Pause 1500] else []);
          (published2, evs2) = enrichLoop geo sortedNodes (Suc i) rest published1
      in (published2, evs @ pause @ evs2))"

text \<open>The comparison function of the sort.\<close>

definition healthOrder :: "health \<Rightarrow> int" where
  "healthOrder h = (case h of Healthy \<Rightarrow> 0 | Unknown \<Rightarrow> 1 | Unhealthy \<Rightarrow> 2)"

definition compareNodes :: "PNode \<Rightarrow> PNode \<Rightarrow> int" where
  "compareNodes a b =
     (if isPNode a \<and> \<not> isPNode b then - 1
      else if \<not> isPNode a \<and> isPNode b then 1
      else healthOrder (health a) - healthOrder (health b))"

text \<open>\<open>Array.prototype.sort\<close> is stable: insertion from the right keeps equal elements in order.\<close>

fun insert_by :: "('a \<Rightarrow> 'a \<Rightarrow> int) \<Rightarrow> 'a \<Rightarrow> 'a list \<Rightarrow> 'a list" where
  "insert_by cmp x [] = [x]"
| "insert_by cmp x (y # ys) = (if cmp x y \<le> 0 then x # y # ys else y # insert_by cmp x ys)"

definition sort_by :: "('a \<Rightarrow> 'a \<Rightarrow> int) \<Rightarrow> 'a list \<Rightarrow> 'a list" where
  "sort_by cmp xs = foldr (insert_by cmp) xs []"

definition computeStats :: "PNode list \<Rightarrow> NetworkStats" where
  "computeStats sortedNodes =
     (let healthyCount = length (filter (\<lambda>n. health n = Healthy) sortedNodes);
          nodesWithLatency = filter (\<lambda>n. latency n \<noteq> None) sortedNodes;
          avg = (if length nodesWithLatency > 0
                 then Math_round
                        (real_of_int (foldl (\<lambda>acc n. acc + (case latency n of None \<Rightarrow> 0 | Some l \<Rightarrow> l))
                                        0 nodesWithLatency)
                         / real (length nodesWithLatency))
                 else 0)
      in \<lparr> totalNodes = length sortedNodes, healthyNodes = healthyCount, avgLatency = avg,
           tps = 0, currentSlot = 0 \<rparr>)"

text \<open>The candidates of the enrichment, line 91.\<close>

definition nodesWithIpOf :: "PNode list \<Rightarrow> PNode list" where
  "nodesWithIpOf sortedNodes = take 17 (filter (\<lambda>n. truthy (ip n)) sortedNodes)"

text \<open>
  \<open>refreshNodes\<close>. \<open>fetched\<close> is what \<open>await pnodeService.getPnodeGossip()\<close> gives, a
  rejection or the list; \<open>geo i a\<close> is what the geolocation service does with the
  request of candidate \<open>i\<close> for address \<open>a\<close>. The value is the state when the cycle
  has ended and the lookups, requests and pauses of the enrichment, in order.
\<close>

definition refreshNodes ::
  "(nat \<Rightarrow> string \<Rightarrow> geo_reply) \<Rightarrow> int \<Rightarrow> exn + PNode list \<Rightarrow> HookState \<Rightarrow> HookState \<times> event list"
where
  "refreshNodes geo now fetched st =
     (let st1 = st\<lparr>loading := True, connectionStatus := Connecting\<rparr> in
      case fetched of
        Inl e \<Rightarrow> (st1\<lparr>connectionStatus := Error, loading := False\<rparr>, [])
      | Inr fetchedNodes \<Rightarrow>
          if length fetchedNodes = 0 then (st1\<lparr>connectionStatus := Error, loading := False\<rparr>, [])
          else
            (let st2 = st1\<lparr>connectionStatus := Connected\<rparr>;
                 sortedNodes = sort_by compareNodes fetchedNodes;
                 st3 = st2\<lparr>nodes := sortedNodes, lastRefresh := Some now\<rparr>;
                 st4 = st3\<lparr>stats := computeStats sortedNodes\<rparr>;
                 nodesWithIp = nodesWithIpOf sortedNodes;
                 (published, evs) = enrichLoop geo sortedNodes 0 nodesWithIp (nodes st4)
             in (st4\<lparr>nodes := published, loading := False\<rparr>, evs)))"

text \<open>One whole cycle: the service queried, then the hook.\<close>

definition refreshCycle ::
  "(nat \<Rightarrow> string \<Rightarrow> cluster_reply) \<Rightarrow> (nat \<Rightarrow> string \<Rightarrow> addr_replies)
     \<Rightarrow> (nat \<Rightarrow> string \<Rightarrow> geo_reply) \<Rightarrow> int \<Rightarrow> PNodeService \<times> HookState
     \<Rightarrow> (PNodeService \<times> HookState) \<times> event list"
where
  "refreshCycle env rpc geo now s =
     (case getPnodeGossip env rpc now (fst s) of
        (svc1, fetchedNodes) \<Rightarrow>
          (case refreshNodes geo now (Inr fetchedNodes) (snd s) of
             (st1, evs) \<Rightarrow> ((svc1, st1), evs)))"

subsection \<open>The enrichment as the specification describes it\<close>

text \<open>What one call of \<open>getGeoLocation\<close> does, whatever the service answers.\<close>

definition lookup_events :: "string \<Rightarrow> event list" where
  "lookup_events a = (if geo_skipped a then [Geo_lookup a] else [Geo_lookup a, Geo_request a])"

text \<open>
  The candidates one after the other, a pause of 1.5 s between two of them and none
  after the last.
\<close>

fun sequential_enrichment :: "string list \<Rightarrow> event list" where
  "sequential_enrichment [] = []"
| "sequential_enrichment [a] = lookup_events a"
| "sequential_enrichment (a # b # rest) =
     lookup_events a @ Pause 1500 # sequential_enrichment (b # rest)"

text \<open>One event for each address, in order, and a pause of 1.5 s between two of them.\<close>

fun alternating :: "(string \<Rightarrow> event) \<Rightarrow> string list \<Rightarrow> event list" where
  "alternating f [] = []"
| "alternating f [a] = [f a]"
| "alternating f (a # b # rest) = f a # Pause 1500 # alternating f (b # rest)"

definition is_lookup :: "event \<Rightarrow> bool" where
  "is_lookup e = (case e of Geo_lookup a \<Rightarrow> True | Geo_request a \<Rightarrow> False | Pause d \<Rightarrow> False)"

definition is_request :: "event \<Rightarrow> bool" where
  "is_request e = (case e of Geo_lookup a \<Rightarrow> False | Geo_request a \<Rightarrow> True | Pause d \<Rightarrow> False)"

text \<open>The request goes to an address that the guard of \<open>getGeoLocation\<close> lets through.\<close>

definition request_allowed :: "event \<Rightarrow> bool" where
  "request_allowed e =
     (case e of Geo_lookup a \<Rightarrow> True | Geo_request a \<Rightarrow> \<not> geo_skipped a | Pause d \<Rightarrow> True)"

text \<open>
  Between any two requests of a trace there is a pause of 1.5 s; \<open>sent\<close> says that a
  request has been sent since the last such pause.
\<close>

fun paused_between :: "bool \<Rightarrow> event list \<Rightarrow> bool" where
  "paused_between sent [] = True"
| "paused_between sent (Geo_lookup a # es) = paused_between sent es"
| "paused_between sent (Geo_request a # es) = (\<not> sent \<and> paused_between True es)"
| "paused_between sent (Pause d # es) = paused_between (sent \<and> d \<noteq> 1500) es"

definition is_located :: "PNode \<Rightarrow> bool" where
  "is_located n = (location n \<noteq> None)"

text \<open>The addresses of the candidates of a cycle that fetched \<open>fetchedNodes\<close>.\<close>

definition candidate_addresses :: "PNode list \<Rightarrow> string list" where
  "candidate_addresses fetchedNodes =
     map (\<lambda>n. the (ip n)) (nodesWithIpOf (sort_by compareNodes fetchedNodes))"

section \<open>Example inputs\<close>

text \<open>The service as the constructor leaves it, with no custom address.\<close>

definition fresh_service :: PNodeService where
  "fresh_service =
     \<lparr> customPNodes = [], isConnected = False, localProxyAvailable = None,
       centralRpcEndpoint = None, lastError = None, storedRpcEndpoint = None \<rparr>"






text \<open>An address that answers none of the four calls, each after its timeout.\<close>

definition null_replies :: addr_replies where
  "null_replies =
     \<lparr> getHealth = (None, 12000), getVersion = (None, 24000), getIdentity = (None, 36000),
       getClusterNodes = (None, 48000) \<rparr>"

text \<open>An address that answers only \<open>getClusterNodes\<close>, with an empty list.\<close>

definition cluster_only_replies :: addr_replies where
  "cluster_only_replies =
     \<lparr> getHealth = (None, 12000), getVersion = (None, 24000), getIdentity = (None, 36000),
       getClusterNodes = (Some [], 36040) \<rparr>"

text \<open>An address whose \<open>getHealth\<close> answers \<open>behind\<close> and that answers nothing else.\<close>

definition behind_replies :: addr_replies where
  "behind_replies =
     \<lparr> getHealth = (Some (Health_text ''behind''), 35), getVersion = (None, 12035),
       getIdentity = (None, 24035), getClusterNodes = (None, 36035) \<rparr>"

text \<open>An address that answers only \<open>getIdentity\<close>.\<close>

definition identity_only_replies :: addr_replies where
  "identity_only_replies =
     \<lparr> getHealth = (None, 12000), getVersion = (None, 24000),
       getIdentity = (Some \<lparr> identity = Some ''abc'', ir_pubkey = None \<rparr>, 24007),
       getClusterNodes = (None, 36007) \<rparr>"

text \<open>No address answers any call.\<close>

definition all_null :: "nat \<Rightarrow> string \<Rightarrow> addr_replies" where
  "all_null k address = null_replies"

text \<open>Only the first address answers, and only \<open>getIdentity\<close>.\<close>

definition first_identity_only :: "nat \<Rightarrow> string \<Rightarrow> addr_replies" where
  "first_identity_only k address = (if k = 0 then identity_only_replies else null_replies)"

text \<open>
  An address whose \<open>getHealth\<close> answers \<open>ok\<close> after 42 ms and that answers nothing
  else; the first address alone answering so; and the service with the first known
  address added once more by the user, without its port.
\<close>

definition ok_replies :: addr_replies where
  "ok_replies =
     \<lparr> getHealth = (Some (Health_text ''ok''), 42), getVersion = (None, 12042),
       getIdentity = (None, 24042), getClusterNodes = (None, 36042) \<rparr>"

definition first_healthy :: "nat \<Rightarrow> string \<Rightarrow> addr_replies" where
  "first_healthy k address = (if k = 0 then ok_replies else null_replies)"

definition twice_listed :: PNodeService where
  "twice_listed = fresh_service\<lparr>customPNodes := [''157.173.125.223'']\<rparr>"

text \<open>No endpoint answers the cluster request.\<close>

definition no_endpoint :: "nat \<Rightarrow> string \<Rightarrow> cluster_reply" where
  "no_endpoint i endpoint = Fetch_rejects"

text \<open>The record of a healthy node with a measured latency, and of one never reached.\<close>

definition healthy_record :: PNode where
  "healthy_record =
     \<lparr> pubkey = ''K'', gossipPort = Num 9001, tpuPort = Num 0, rpcPort = Num 9001,
       version = None, health = Healthy, latency = Some 42, lastUpdate = 0, isPNode = True,
       ip = Some ''1.2.3.4'', location = None, featureSet = None, shredVersion = None \<rparr>"

definition unknown_record :: PNode where
  "unknown_record = healthy_record\<lparr>health := Unknown, latency := None\<rparr>"

text \<open>The entry of the end-to-end scenario of the specification.\<close>

definition scenario_entry :: ClusterNode where
  "scenario_entry =
     \<lparr> cn_pubkey = Some ''abc'', cn_gossip = Some ''1.2.3.4:8001'', cn_tpu = None, cn_rpc = None,
       cn_version = Some ''0.806.30102'', cn_featureSet = None, cn_shredVersion = None \<rparr>"

text \<open>The first endpoint answers with the scenario's entry alone.\<close>

definition scenario_endpoint :: "nat \<Rightarrow> string \<Rightarrow> cluster_reply" where
  "scenario_endpoint i endpoint = (if i = 0 then Result_array [scenario_entry] else Fetch_rejects)"

text \<open>A neighbour with a standard version.\<close>

definition generic_neighbour :: ClusterNode where
  "generic_neighbour =
     \<lparr> cn_pubkey = Some ''def'', cn_gossip = Some ''5.6.7.8:8001'', cn_tpu = None, cn_rpc = None,
       cn_version = Some ''3.0.12'', cn_featureSet = None, cn_shredVersion = None \<rparr>"

text \<open>An entry with a Xandeum version at a known address: it is in both subsets.\<close>

definition known_xandeum_entry :: ClusterNode where
  "known_xandeum_entry =
     \<lparr> cn_pubkey = Some ''xyz'', cn_gossip = Some ''157.173.125.223:8001'', cn_tpu = None,
       cn_rpc = None, cn_version = Some ''0.806.30102'', cn_featureSet = None,
       cn_shredVersion = None \<rparr>"

text \<open>An entry with a Xandeum version and no \<open>pubkey\<close>, at an address that is not known.\<close>

definition keyless_xandeum_entry :: ClusterNode where
  "keyless_xandeum_entry =
     \<lparr> cn_pubkey = None, cn_gossip = Some ''9.9.9.9:8001'', cn_tpu = None, cn_rpc = None,
       cn_version = Some ''0.806.30102'', cn_featureSet = None, cn_shredVersion = None \<rparr>"

text \<open>A geolocation service that answers every request.\<close>

definition somewhere :: GeoLocation where
  "somewhere = \<lparr> country = ''Germany'', countryCode = ''DE'', city = ''Berlin'', lat = 52, lon = 13 \<rparr>"

definition geo_answers :: "nat \<Rightarrow> string \<Rightarrow> geo_reply" where
  "geo_answers i address = Geo_success somewhere"

text \<open>A record at the loopback address, and one at an address of the range 172.16.0.0/12.\<close>

definition loopback_record :: PNode where
  "loopback_record = healthy_record\<lparr>pubkey := ''L'', ip := Some ''127.0.0.1''\<rparr>"

definition private_record :: PNode where
  "private_record = healthy_record\<lparr>pubkey := ''P'', ip := Some ''172.16.0.1''\<rparr>"

section \<open>Properties of the classifier\<close>

lemma re_test_exactly:
  "re_test ((p, Exactly n) # r) s =
     (\<exists>a t. s = a @ t \<and> length a = n \<and> list_all p a \<and> re_test r t)"
proof
  assume "re_test ((p, Exactly n) # r) s"
  then have "s = take n s @ drop n s \<and> length (take n s) = n \<and> list_all p (take n s)
      \<and> re_test r (drop n s)"
    by simp
  then show "\<exists>a t. s = a @ t \<and> length a = n \<and> list_all p a \<and> re_test r t"
    by blast
next
  assume "\<exists>a t. s = a @ t \<and> length a = n \<and> list_all p a \<and> re_test r t"
  then show "re_test ((p, Exactly n) # r) s"
    by auto
qed

lemma re_test_plus:
  "re_test ((p, OneOrMore) # r) s =
     (\<exists>a t. s = a @ t \<and> a \<noteq> [] \<and> list_all p a \<and> re_test r t)"
proof
  assume "re_test ((p, OneOrMore) # r) s"
  then obtain k where k: "1 \<le> k" "k \<le> length s" "list_all p (take k s)" "re_test r (drop k s)"
    by (auto simp: list_ex_iff)
  then have "s = take k s @ drop k s \<and> take k s \<noteq> [] \<and> list_all p (take k s)
      \<and> re_test r (drop k s)"
    by auto
  then show "\<exists>a t. s = a @ t \<and> a \<noteq> [] \<and> list_all p a \<and> re_test r t"
    by blast
next
  assume "\<exists>a t. s = a @ t \<and> a \<noteq> [] \<and> list_all p a \<and> re_test r t"
  then obtain a t where at: "s = a @ t" "a \<noteq> []" "list_all p a" "re_test r t"
    by blast
  then have "1 \<le> length a \<and> length a < Suc (length s)"
    by (cases a) simp_all
  then have "length a \<in> set [1..<Suc (length s)]"
    unfolding set_upt atLeastLessThan_iff .
  moreover from at have "list_all p (take (length a) s) \<and> re_test r (drop (length a) s)"
    by simp
  ultimately show "re_test ((p, OneOrMore) # r) s"
    unfolding re_test.simps list_ex_iff by blast
qed

lemma re_test_lit:
  "re_test (lit c # r) s = (\<exists>t. s = c # t \<and> re_test r t)"
proof -
  have "re_test (lit c # r) s =
      (\<exists>a t. s = a @ t \<and> length a = 1 \<and> list_all (\<lambda>x. x = c) a \<and> re_test r t)"
    unfolding lit_def by (rule re_test_exactly)
  also have "\<dots> = (\<exists>t. s = c # t \<and> re_test r t)"
  proof
    assume "\<exists>a t. s = a @ t \<and> length a = 1 \<and> list_all (\<lambda>x. x = c) a \<and> re_test r t"
    then obtain a t where at: "s = a @ t" "length a = 1" "list_all (\<lambda>x. x = c) a" "re_test r t"
      by blast
    from at(2) obtain x where "a = [x]"
      by (cases a) auto
    with at show "\<exists>t. s = c # t \<and> re_test r t"
      by auto
  next
    assume "\<exists>t. s = c # t \<and> re_test r t"
    then obtain t where "s = [c] @ t" "re_test r t"
      by auto
    then show "\<exists>a t. s = a @ t \<and> length a = 1 \<and> list_all (\<lambda>x. x = c) a \<and> re_test r t"
      by (intro exI [of _ "[c]"] exI [of _ t]) simp
  qed
  finally show ?thesis .
qed

lemma pnodePattern_shape: "re_test pnodePattern s = stable_release_shape s"
proof
  assume "re_test pnodePattern s"
  then show "stable_release_shape s"
    unfolding pnodePattern_def stable_release_shape_def
    by (simp only: re_test_lit re_test_exactly re_test.simps(1)) auto
next
  assume "stable_release_shape s"
  then obtain a b where s: "s = CHR ''0'' # CHR ''.'' # a @ CHR ''.'' # b"
    and a: "length a = 3" "list_all is_digit a" and b: "length b = 5" "list_all is_digit b"
    unfolding stable_release_shape_def by auto
  have "re_test [(is_digit, Exactly 5)] b"
    using b by simp
  then have "re_test [lit CHR ''.'', (is_digit, Exactly 5)] (CHR ''.'' # b)"
    by (subst re_test_lit) blast
  then have "re_test [(is_digit, Exactly 3), lit CHR ''.'', (is_digit, Exactly 5)]
      (a @ CHR ''.'' # b)"
    using a by (subst re_test_exactly) blast
  then have "re_test [lit CHR ''.'', (is_digit, Exactly 3), lit CHR ''.'', (is_digit, Exactly 5)]
      (CHR ''.'' # a @ CHR ''.'' # b)"
    by (subst re_test_lit) blast
  then show "re_test pnodePattern s"
    unfolding pnodePattern_def s by (subst re_test_lit) blast
qed

lemma vnodePattern_shape: "re_test vnodePattern s = development_build_shape s"
proof
  assume "re_test vnodePattern s"
  then show "development_build_shape s"
    unfolding vnodePattern_def development_build_shape_def
    by (simp only: re_test_lit re_test_exactly re_test_plus re_test.simps(1)) auto
next
  assume "development_build_shape s"
  then obtain a b c h where s: "s = a @ CHR ''.'' # b @ CHR ''.'' # c @ CHR ''-'' # h"
    and a: "a \<noteq> []" "list_all is_digit a" and b: "b \<noteq> []" "list_all is_digit b"
    and c: "c \<noteq> []" "list_all is_digit c" and h: "length h = 8" "list_all is_lower_hex h"
    unfolding development_build_shape_def by auto
  have "re_test [(is_lower_hex, Exactly 8)] h"
    using h by simp
  then have "re_test [lit CHR ''-'', (is_lower_hex, Exactly 8)] (CHR ''-'' # h)"
    by (subst re_test_lit) blast
  then have "re_test [(is_digit, OneOrMore), lit CHR ''-'', (is_lower_hex, Exactly 8)]
      (c @ CHR ''-'' # h)"
    using c by (subst re_test_plus) blast
  then have "re_test [lit CHR ''.'', (is_digit, OneOrMore), lit CHR ''-'',
      (is_lower_hex, Exactly 8)] (CHR ''.'' # c @ CHR ''-'' # h)"
    by (subst re_test_lit) blast
  then have "re_test [(is_digit, OneOrMore), lit CHR ''.'', (is_digit, OneOrMore),
      lit CHR ''-'', (is_lower_hex, Exactly 8)] (b @ CHR ''.'' # c @ CHR ''-'' # h)"
    using b by (subst re_test_plus) blast
  then have "re_test [lit CHR ''.'', (is_digit, OneOrMore), lit CHR ''.'', (is_digit, OneOrMore),
      lit CHR ''-'', (is_lower_hex, Exactly 8)] (CHR ''.'' # b @ CHR ''.'' # c @ CHR ''-'' # h)"
    by (subst re_test_lit) blast
  then show "re_test vnodePattern s"
    unfolding vnodePattern_def s using a by (subst re_test_plus) blast
qed

text \<open>
  C3. The version classifier is a total function of its argument alone. It answers true
  exactly on the strings of the stable-release shape or of the development-build shape,
  and false on an absent version, on the empty string and on every other string, such
  as \<open>1.18.2\<close> and \<open>abc\<close>.
\<close>

theorem isXandeumVersion_classifies:
  "isXandeumVersion v =
     (case v of None \<Rightarrow> False
      | Some s \<Rightarrow> stable_release_shape s \<or> development_build_shape s)
   \<and> isXandeumVersion None = False
   \<and> isXandeumVersion (Some []) = False
   \<and> isXandeumVersion (Some ''1.18.2'') = False
   \<and> isXandeumVersion (Some ''abc'') = False"
proof -
  have empty: "\<not> stable_release_shape [] \<and> \<not> development_build_shape []"
    unfolding stable_release_shape_def development_build_shape_def by simp
  have shape: "isXandeumVersion v =
     (case v of None \<Rightarrow> False
      | Some s \<Rightarrow> stable_release_shape s \<or> development_build_shape s)"
  proof (cases v)
    case None
    then show ?thesis by (simp add: isXandeumVersion_def truthy_def)
  next
    case (Some s)
    show ?thesis
    proof (cases "s = []")
      case True
      with Some empty show ?thesis by (simp add: isXandeumVersion_def truthy_def)
    next
      case False
      with Some show ?thesis
        by (simp add: isXandeumVersion_def truthy_def pnodePattern_shape vnodePattern_shape)
    qed
  qed
  have absent: "isXandeumVersion None = False" "isXandeumVersion (Some []) = False"
    by (simp_all add: isXandeumVersion_def truthy_def)
  have other: "isXandeumVersion (Some ''1.18.2'') = False" "isXandeumVersion (Some ''abc'') = False"
    by code_simp+
  from shape absent other show ?thesis
    by blast
qed

theorem isXandeumVersion_classifies_witness:
  "isXandeumVersion (Some ''0.806.30102'') \<and> stable_release_shape ''0.806.30102''
   \<and> isXandeumVersion (Some ''2.2.0-7c3f39e8'') \<and> development_build_shape ''2.2.0-7c3f39e8''
   \<and> \<not> stable_release_shape ''3.0.12'' \<and> \<not> development_build_shape ''3.0.12''"
proof -
  have a: "isXandeumVersion (Some ''0.806.30102'')"
    by code_simp
  have b: "isXandeumVersion (Some ''2.2.0-7c3f39e8'')"
    by code_simp
  have c: "\<not> isXandeumVersion (Some ''3.0.12'')"
    by code_simp
  have d: "\<not> re_test vnodePattern ''0.806.30102''" "\<not> re_test pnodePattern ''2.2.0-7c3f39e8''"
    by code_simp+
  from a b c d show ?thesis
    using isXandeumVersion_classifies [of "Some ''0.806.30102''"]
      isXandeumVersion_classifies [of "Some ''2.2.0-7c3f39e8''"]
      isXandeumVersion_classifies [of "Some ''3.0.12''"]
    by (simp add: pnodePattern_shape [symmetric] vnodePattern_shape [symmetric])
qed

section \<open>Properties of rpcCallToNode\<close>








section \<open>Properties of the direct queries\<close>

lemma batch_results:
  "map (\<lambda>(j, address). queryAddress now (rpc (i + j) address) address)
       (enumerate 0 (take b (drop i addresses)))
   = map (queryAt rpc now addresses) [i..<min (i + b) (length addresses)]"
proof (rule nth_equalityI)
  show "length (map (\<lambda>(j, address). queryAddress now (rpc (i + j) address) address)
       (enumerate 0 (take b (drop i addresses))))
      = length (map (queryAt rpc now addresses) [i..<min (i + b) (length addresses)])"
    by auto
next
  fix k
  assume "k < length (map (\<lambda>(j, address). queryAddress now (rpc (i + j) address) address)
       (enumerate 0 (take b (drop i addresses))))"
  then have k: "k < b" "i + k < length addresses"
    by auto
  then have "enumerate 0 (take b (drop i addresses)) ! k = (k, addresses ! (i + k))"
    by (simp add: nth_enumerate_eq)
  moreover from k have "[i..<min (i + b) (length addresses)] ! k = i + k"
    by simp
  ultimately show "map (\<lambda>(j, address). queryAddress now (rpc (i + j) address) address)
       (enumerate 0 (take b (drop i addresses))) ! k
      = map (queryAt rpc now addresses) [i..<min (i + b) (length addresses)] ! k"
    using k by (simp add: queryAt_def)
qed

lemma upt_split_batch:
  "i < n \<Longrightarrow> [i..<n] = [i..<min (i + b) n] @ [i + b..<n]"
proof (cases "i + b \<le> n")
  case True
  assume "i < n"
  from True obtain m where n: "n = (i + b) + m"
    using le_Suc_ex by blast
  have "[i..<(i + b) + m] = [i..<i + b] @ [i + b..<(i + b) + m]"
    by (rule upt_add_eq_append) simp
  then have "[i..<n] = [i..<i + b] @ [i + b..<n]"
    unfolding n .
  with True show ?thesis by (simp add: min_def)
next
  case False
  then show ?thesis by (simp add: min_def)
qed

lemma queryBatches_flat:
  "queryBatches rpc now addresses i (ns, cc)
   = (foldl (pushResult now) ns (map (queryAt rpc now addresses) [i..<length addresses]),
      cc + sum_list (map counted (map (queryAt rpc now addresses) [i..<length addresses])))"
proof (induction rpc now addresses i "(ns, cc)" arbitrary: ns cc rule: queryBatches.induct)
  case (1 rpc now addresses i ns cc)
  show ?case
  proof (cases "i < length addresses")
    case True
    let ?rs = "map (queryAt rpc now addresses) [i..<min (i + batchSize) (length addresses)]"
    have step: "queryBatches rpc now addresses i (ns, cc)
        = queryBatches rpc now addresses (i + batchSize)
            (foldl (pushResult now) ns ?rs, cc + sum_list (map counted ?rs))"
      using True by (subst queryBatches.simps) (simp only: batch_results Let_def if_True)
    have ih: "queryBatches rpc now addresses (i + batchSize)
            (foldl (pushResult now) ns ?rs, cc + sum_list (map counted ?rs))
        = (foldl (pushResult now) (foldl (pushResult now) ns ?rs)
             (map (queryAt rpc now addresses) [i + batchSize..<length addresses]),
           cc + sum_list (map counted ?rs)
             + sum_list (map counted (map (queryAt rpc now addresses)
                 [i + batchSize..<length addresses])))"
      using "1.hyps" [OF True refl refl] by (simp only: batch_results add.assoc)
    have split: "[i..<length addresses]
        = [i..<min (i + batchSize) (length addresses)] @ [i + batchSize..<length addresses]"
      using True by (rule upt_split_batch)
    show ?thesis
      unfolding step ih by (subst (1 2) split) (simp add: add.assoc)
  next
    case False
    then show ?thesis
      by (subst queryBatches.simps) (simp del: queryBatches.simps)
  qed
qed

lemma pushClusterNodes_shape:
  "\<exists>ys. foldl (pushClusterNode now) ns cns = ns @ ys
        \<and> (\<forall>y \<in> set ys. \<exists>c. y = neighbourNode now c)"
proof (induction cns arbitrary: ns)
  case Nil
  show ?case by simp
next
  case (Cons c cns)
  show ?case
  proof (cases "pushClusterNode now ns c = ns")
    case True
    with Cons.IH [of ns] show ?thesis by simp
  next
    case False
    then have eq: "pushClusterNode now ns c = ns @ [neighbourNode now c]"
      by (simp add: pushClusterNode_def split: if_splits)
    from Cons.IH [of "ns @ [neighbourNode now c]"] obtain ys
      where "foldl (pushClusterNode now) (ns @ [neighbourNode now c]) cns
               = (ns @ [neighbourNode now c]) @ ys"
        and "\<forall>y \<in> set ys. \<exists>c. y = neighbourNode now c"
      by blast
    then have "foldl (pushClusterNode now) ns (c # cns) = ns @ (neighbourNode now c # ys)
        \<and> (\<forall>y \<in> set (neighbourNode now c # ys). \<exists>c. y = neighbourNode now c)"
      using eq by auto
    then show ?thesis by blast
  qed
qed

lemma pushResult_shape:
  "\<exists>ys. pushResult now ns r = ns @ node r # ys
        \<and> (\<forall>y \<in> set ys. \<exists>c. y = neighbourNode now c)
        \<and> (clusterNodes r = None \<longrightarrow> ys = [])"
proof (cases "clusterNodes r")
  case None
  then show ?thesis by (simp add: pushResult_def)
next
  case (Some cns)
  from pushClusterNodes_shape [of now "ns @ [node r]" cns] obtain ys
    where "foldl (pushClusterNode now) (ns @ [node r]) cns = (ns @ [node r]) @ ys"
      and "\<forall>y \<in> set ys. \<exists>c. y = neighbourNode now c"
    by blast
  with Some show ?thesis by (simp add: pushResult_def)
qed

lemma pushResults_shape:
  "\<exists>zs. foldl (pushResult now) ns rs = ns @ zs
        \<and> node ` set rs \<subseteq> set zs
        \<and> (\<forall>z \<in> set zs. z \<in> node ` set rs \<or> (\<exists>c. z = neighbourNode now c))
        \<and> length rs \<le> length zs
        \<and> ((\<forall>r \<in> set rs. clusterNodes r = None) \<longrightarrow> zs = map node rs)"
proof (induction rs arbitrary: ns)
  case Nil
  show ?case by simp
next
  case (Cons r rs)
  from pushResult_shape [of now ns r] obtain ys
    where ys0: "pushResult now ns r = ns @ node r # ys
        \<and> (\<forall>y \<in> set ys. \<exists>c. y = neighbourNode now c)
        \<and> (clusterNodes r = None \<longrightarrow> ys = [])" ..
  from ys0 have ys: "pushResult now ns r = ns @ node r # ys"
      "\<forall>y \<in> set ys. \<exists>c. y = neighbourNode now c" "clusterNodes r = None \<longrightarrow> ys = []"
    by simp_all
  from Cons.IH [of "ns @ node r # ys"] obtain zs
    where zs0: "foldl (pushResult now) (ns @ node r # ys) rs = (ns @ node r # ys) @ zs
        \<and> node ` set rs \<subseteq> set zs
        \<and> (\<forall>z \<in> set zs. z \<in> node ` set rs \<or> (\<exists>c. z = neighbourNode now c))
        \<and> length rs \<le> length zs
        \<and> ((\<forall>r \<in> set rs. clusterNodes r = None) \<longrightarrow> zs = map node rs)" ..
  from zs0 have zs: "foldl (pushResult now) (ns @ node r # ys) rs = (ns @ node r # ys) @ zs"
      "node ` set rs \<subseteq> set zs"
      "\<forall>z \<in> set zs. z \<in> node ` set rs \<or> (\<exists>c. z = neighbourNode now c)"
      "length rs \<le> length zs"
      "(\<forall>r \<in> set rs. clusterNodes r = None) \<longrightarrow> zs = map node rs"
    by simp_all
  let ?zs = "node r # ys @ zs"
  have a: "foldl (pushResult now) ns (r # rs) = ns @ ?zs"
    using ys(1) zs(1) by simp
  have b: "node ` set (r # rs) \<subseteq> set ?zs"
    using zs(2) by auto
  have c: "\<forall>z \<in> set ?zs. z \<in> node ` set (r # rs) \<or> (\<exists>c. z = neighbourNode now c)"
    using ys(2) zs(3) by auto
  have d: "length (r # rs) \<le> length ?zs"
    using zs(4) by simp
  have e: "(\<forall>q \<in> set (r # rs). clusterNodes q = None) \<longrightarrow> ?zs = map node (r # rs)"
    using ys(3) zs(5) by simp
  show ?case
    by (rule exI [of _ "?zs"]) (intro conjI a b c d e)
qed

section \<open>Properties of the merge\<close>

lemma dedup_step_keys: "fst ` set (dedup_step m n) = insert (pubkey n) (fst ` set m)"
proof (cases "takes_place (map_of m (pubkey n)) n")
  case True
  then show ?thesis
    using dom_update [of "pubkey n" n m] by (simp add: dedup_step_def)
next
  case False
  then obtain e where "map_of m (pubkey n) = Some e"
    by (cases "map_of m (pubkey n)") (auto simp: takes_place_def)
  then have "pubkey n \<in> fst ` set m"
    by (meson domI dom_map_of_conv_image_fst [THEN equalityD1, THEN subsetD])
  with False show ?thesis
    by (auto simp: dedup_step_def)
qed

lemma dedup_step_values: "snd ` set (dedup_step m n) \<subseteq> insert n (snd ` set m)"
proof -
  have "set (AList.update (pubkey n) n m) \<subseteq> insert (pubkey n, n) (set m)"
    by (induction m) auto
  then show ?thesis
    by (auto simp: dedup_step_def Let_def split: if_splits)
qed

lemma dedup_step_well_keyed: "well_keyed m \<Longrightarrow> well_keyed (dedup_step m n)"
proof -
  assume wk: "well_keyed m"
  have sub: "set (AList.update (pubkey n) n m) \<subseteq> insert (pubkey n, n) (set m)"
    by (induction m) auto
  from wk have "well_keyed (AList.update (pubkey n) n m)"
    unfolding well_keyed_def list_all_iff using sub by (auto simp: distinct_update)
  with wk show ?thesis
    by (simp add: dedup_step_def Let_def)
qed

lemma foldl_dedup_keys: "fst ` set (foldl dedup_step m ns) = fst ` set m \<union> pubkey ` set ns"
  by (induction ns arbitrary: m) (auto simp: dedup_step_keys)

lemma foldl_dedup_values: "snd ` set (foldl dedup_step m ns) \<subseteq> snd ` set m \<union> set ns"
proof (induction ns arbitrary: m)
  case Nil
  show ?case by simp
next
  case (Cons n ns)
  from Cons.IH [of "dedup_step m n"] dedup_step_values [of m n] show ?case
    by auto
qed

lemma foldl_dedup_well_keyed: "well_keyed m \<Longrightarrow> well_keyed (foldl dedup_step m ns)"
  by (induction ns arbitrary: m) (auto simp: dedup_step_well_keyed)

lemma well_keyed_pubkeys: "well_keyed m \<Longrightarrow> map pubkey (map snd m) = map fst m"
  unfolding well_keyed_def by (induction m) auto

lemma deduplicate_subset: "set (deduplicate ns) \<subseteq> set ns"
  using foldl_dedup_values [of "[]" ns] by (simp add: deduplicate_def)

lemma deduplicate_keys: "pubkey ` set (deduplicate ns) = pubkey ` set ns"
proof -
  have wk: "well_keyed (foldl dedup_step [] ns)"
    by (rule foldl_dedup_well_keyed) (simp add: well_keyed_def)
  have "pubkey ` set (deduplicate ns) = set (map pubkey (map snd (foldl dedup_step [] ns)))"
    by (simp add: deduplicate_def image_image)
  also have "\<dots> = fst ` set (foldl dedup_step [] ns)"
    using well_keyed_pubkeys [OF wk] by simp
  also have "\<dots> = pubkey ` set ns"
    using foldl_dedup_keys [of "[]" ns] by simp
  finally show ?thesis .
qed

lemma deduplicate_distinct: "distinct (map pubkey (deduplicate ns))"
proof -
  have wk: "well_keyed (foldl dedup_step [] ns)"
    by (rule foldl_dedup_well_keyed) (simp add: well_keyed_def)
  then show ?thesis
    unfolding deduplicate_def well_keyed_pubkeys [OF wk] by (simp add: well_keyed_def)
qed

lemma deduplicate_nonempty: "ns \<noteq> [] \<Longrightarrow> deduplicate ns \<noteq> []"
  using deduplicate_keys [of ns] by (cases ns) auto

lemma deduplicate_keeps_unique:
  "n \<in> set ns \<Longrightarrow> \<forall>m \<in> set ns. pubkey m = pubkey n \<longrightarrow> m = n \<Longrightarrow> n \<in> set (deduplicate ns)"
proof -
  assume n: "n \<in> set ns" and u: "\<forall>m \<in> set ns. pubkey m = pubkey n \<longrightarrow> m = n"
  from n have "pubkey n \<in> pubkey ` set (deduplicate ns)"
    unfolding deduplicate_keys by simp
  then obtain r where r: "r \<in> set (deduplicate ns)" "pubkey r = pubkey n"
    by auto
  with deduplicate_subset [of ns] u have "r = n" by blast
  with r show ?thesis by simp
qed

lemma dedup_step_settled:
  assumes "map_of m k = Some n" "health n = Healthy" "latency n \<noteq> None"
  shows "map_of (dedup_step m x) k = Some n"
proof (cases "pubkey x = k")
  case True
  with assms have "\<not> takes_place (map_of m (pubkey x)) x"
    by (simp add: takes_place_def)
  with assms show ?thesis
    by (simp add: dedup_step_def)
next
  case False
  with assms show ?thesis
    by (simp add: dedup_step_def Let_def update_conv)
qed

lemma foldl_dedup_settled:
  "map_of m k = Some n \<Longrightarrow> health n = Healthy \<Longrightarrow> latency n \<noteq> None \<Longrightarrow>
     map_of (foldl dedup_step m ns) k = Some n"
  by (induction ns arbitrary: m) (simp_all add: dedup_step_settled)

lemma deduplicate_keeps_first:
  assumes "health n = Healthy" "latency n \<noteq> None"
  shows "n \<in> set (deduplicate (n # ns))"
proof -
  have "map_of (dedup_step [] n) (pubkey n) = Some n"
    by (simp add: dedup_step_def takes_place_def)
  from foldl_dedup_settled [OF this assms, of ns]
  have "(pubkey n, n) \<in> set (foldl dedup_step (dedup_step [] n) ns)"
    by (rule map_of_SomeD)
  then show ?thesis
    by (force simp: deduplicate_def)
qed

lemma deduplicate_length: "length (deduplicate ns) = card (pubkey ` set ns)"
proof -
  have "length (deduplicate ns) = length (map pubkey (deduplicate ns))"
    by simp
  also have "\<dots> = card (set (map pubkey (deduplicate ns)))"
    using deduplicate_distinct [of ns] by (simp only: distinct_card)
  also have "\<dots> = card (pubkey ` set ns)"
    using deduplicate_keys [of ns] by simp
  finally show ?thesis .
qed

lemma filter_key_single:
  "distinct (map f xs) \<Longrightarrow> x \<in> set xs \<Longrightarrow> filter (\<lambda>r. f r = f x) xs = [x]"
proof (induction xs)
  case Nil
  then show ?case by simp
next
  case (Cons y ys)
  show ?case
  proof (cases "y = x")
    case True
    with Cons.prems have "f x \<notin> f ` set ys"
      by simp
    then have "\<forall>r \<in> set ys. f r \<noteq> f x"
      by (metis imageI)
    then have "filter (\<lambda>r. f r = f x) ys = []"
      by (simp add: filter_empty_conv)
    with True show ?thesis
      by simp
  next
    case False
    with Cons.prems have x: "x \<in> set ys" and d: "distinct (map f ys)" and "f y \<notin> f ` set ys"
      by auto
    then have "f y \<noteq> f x"
      by auto
    with Cons.IH [OF d x] show ?thesis
      by simp
  qed
qed

lemmas query_eval =
  queryAddress_def js_index_def parseInt_def is_js_space_def is_radix_digit_def digit_value_def
  digits_value_def to_double_def synthesized_key_def dots_to_dashes_def number_text_def
  nat_text_def digit_char_def
  truthy_def js_or_def health_ok_def Let_def

text \<open>
  C1, as amended. When the merge meets a record whose key is already stored, the record
  kept under the key is the stored one or the incoming one, and its health tells no less
  than the stored one's unless the incoming record has a latency and the stored one has
  none; in that case the incoming record takes the place whatever its health. In
  particular a stored healthy record stays when it has a latency or the incoming record
  has none.
\<close>

theorem dedup_step_health:
  assumes "map_of uniqueNodes (pubkey incoming) = Some existing"
  shows "\<exists>merged. map_of (dedup_step uniqueNodes incoming) (pubkey incoming) = Some merged
     \<and> (merged = existing \<or> merged = incoming)
     \<and> ((latency incoming = None \<or> latency existing \<noteq> None)
          \<longrightarrow> health_rank (health existing) \<le> health_rank (health merged))
     \<and> ((latency incoming = None \<or> latency existing \<noteq> None) \<and> health existing = Healthy
          \<longrightarrow> health merged = Healthy)
     \<and> (latency incoming \<noteq> None \<and> latency existing = None \<longrightarrow> merged = incoming)"
proof (cases "takes_place (Some existing) incoming")
  case True
  then have m: "map_of (dedup_step uniqueNodes incoming) (pubkey incoming) = Some incoming"
    using assms by (simp add: dedup_step_def update_conv')
  from True have "(latency incoming = None \<or> latency existing \<noteq> None) \<longrightarrow>
      health incoming = Healthy"
    by (auto simp: takes_place_def)
  then have "(latency incoming = None \<or> latency existing \<noteq> None) \<longrightarrow>
      health_rank (health existing) \<le> health_rank (health incoming)
      \<and> health incoming = Healthy"
    by (cases "health existing") (auto simp: health_rank_def)
  with m show ?thesis
    by auto
next
  case False
  then have m: "map_of (dedup_step uniqueNodes incoming) (pubkey incoming) = Some existing"
    using assms by (simp add: dedup_step_def)
  from False have "\<not> (latency incoming \<noteq> None \<and> latency existing = None)"
    by (simp add: takes_place_def)
  with m show ?thesis
    by auto
qed

theorem dedup_step_health_witness:
  "map_of [(''K'', healthy_record)] (pubkey unknown_record) = Some healthy_record
   \<and> latency unknown_record = None
   \<and> health healthy_record = Healthy
   \<and> health unknown_record = Unknown
   \<and> map_of (dedup_step [(''K'', healthy_record)] unknown_record) (pubkey unknown_record)
       = Some healthy_record"
  using dedup_step_health [of "[(''K'', healthy_record)]" unknown_record healthy_record]
  by (simp add: healthy_record_def unknown_record_def dedup_step_def takes_place_def)

text \<open>
  C1 as stated fails: an address that answered only \<open>getClusterNodes\<close> gives a healthy
  record without latency, and a later record under the same key that is unhealthy with
  a latency replaces it.
\<close>

theorem merge_downgrades_health_counterexample:
  "pubkey (node (queryAddress 0 cluster_only_replies ''1.2.3.4''))
     = pubkey (node (queryAddress 0 behind_replies ''1.2.3.4:9001''))
   \<and> health (node (queryAddress 0 cluster_only_replies ''1.2.3.4'')) = Healthy
   \<and> health (node (queryAddress 0 behind_replies ''1.2.3.4:9001'')) = Unhealthy
   \<and> map health (deduplicate [node (queryAddress 0 cluster_only_replies ''1.2.3.4''),
                              node (queryAddress 0 behind_replies ''1.2.3.4:9001'')])
       = [Unhealthy]"
  by (simp add: query_eval cluster_only_replies_def behind_replies_def deduplicate_def
      dedup_step_def takes_place_def)

section \<open>Properties of the node kind\<close>

lemma isXandeumVersion_or_null: "isXandeumVersion (js_or v None) = isXandeumVersion v"
  by (cases v) (auto simp: js_or_def isXandeumVersion_def truthy_def)

lemma mapClusterNodeToPNode_kind:
  "isPNode (mapClusterNodeToPNode now c) = isXandeumVersion (version (mapClusterNodeToPNode now c))"
  by (simp add: mapClusterNodeToPNode_def Let_def isXandeumVersion_or_null)

lemma selectClusterNodes_kind:
  "n \<in> set (selectClusterNodes now allNodes) \<Longrightarrow> isPNode n = isXandeumVersion (version n)"
  using mapClusterNodeToPNode_kind
  by (auto simp: selectClusterNodes_def Let_def split: if_splits)

lemma try_endpoints_selected:
  "snd (try_endpoints env now svc i es) = Some ns \<Longrightarrow> \<exists>allNodes. ns = selectClusterNodes now allNodes"
  by (induction es arbitrary: i) (auto split: cluster_reply.splits)

lemma queryAddress_kind: "isPNode (node (queryAddress now replies address))"
  by (simp add: queryAddress_def Let_def split: prod.splits)

lemma neighbourNode_kind: "isPNode (neighbourNode now c)"
  by (simp add: neighbourNode_def)

lemma produced_nodes:
  "fst (queryBatches rpc now addresses 0 ([], 0))
     = foldl (pushResult now) [] (map (queryAt rpc now addresses) [0..<length addresses])"
  "snd (queryBatches rpc now addresses 0 ([], 0))
     = sum_list (map counted (map (queryAt rpc now addresses) [0..<length addresses]))"
  by (simp_all add: queryBatches_flat)

lemma produced_nodes_cases:
  assumes "n \<in> set (fst (queryBatches rpc now addresses 0 ([], 0)))"
  shows "(\<exists>k < length addresses. n = node (queryAt rpc now addresses k))
       \<or> (\<exists>c. n = neighbourNode now c)"
proof -
  let ?rs = "map (queryAt rpc now addresses) [0..<length addresses]"
  from pushResults_shape [of now "[]" ?rs] obtain zs
    where zs0: "foldl (pushResult now) [] ?rs = [] @ zs
        \<and> node ` set ?rs \<subseteq> set zs
        \<and> (\<forall>z \<in> set zs. z \<in> node ` set ?rs \<or> (\<exists>c. z = neighbourNode now c))
        \<and> length ?rs \<le> length zs
        \<and> ((\<forall>r \<in> set ?rs. clusterNodes r = None) \<longrightarrow> zs = map node ?rs)" ..
  from zs0 assms have "n \<in> set zs"
    by (simp add: produced_nodes)
  with zs0 have "n \<in> node ` set ?rs \<or> (\<exists>c. n = neighbourNode now c)"
    by blast
  then show ?thesis
    by auto
qed

lemma produced_nodes_contains:
  assumes "k < length addresses"
  shows "node (queryAt rpc now addresses k) \<in> set (fst (queryBatches rpc now addresses 0 ([], 0)))"
proof -
  let ?rs = "map (queryAt rpc now addresses) [0..<length addresses]"
  from pushResults_shape [of now "[]" ?rs] obtain zs
    where zs0: "foldl (pushResult now) [] ?rs = [] @ zs
        \<and> node ` set ?rs \<subseteq> set zs
        \<and> (\<forall>z \<in> set zs. z \<in> node ` set ?rs \<or> (\<exists>c. z = neighbourNode now c))
        \<and> length ?rs \<le> length zs
        \<and> ((\<forall>r \<in> set ?rs. clusterNodes r = None) \<longrightarrow> zs = map node ?rs)" ..
  from assms have "node (queryAt rpc now addresses k) \<in> node ` set ?rs"
    by simp
  with zs0 show ?thesis
    by (auto simp: produced_nodes)
qed

lemma queryKnownAddresses_result:
  "snd (queryKnownAddresses rpc now svc addresses)
     = deduplicate (fst (queryBatches rpc now addresses 0 ([], 0)))"
  by (simp add: queryKnownAddresses_def Let_def split: prod.splits)

lemma fallback_kind:
  "n \<in> set (snd (queryKnownAddresses rpc now svc addresses)) \<Longrightarrow> isPNode n"
proof -
  assume "n \<in> set (snd (queryKnownAddresses rpc now svc addresses))"
  then have "n \<in> set (fst (queryBatches rpc now addresses 0 ([], 0)))"
    using deduplicate_subset unfolding queryKnownAddresses_result by blast
  from produced_nodes_cases [OF this] show "isPNode n"
    using queryAddress_kind neighbourNode_kind by (auto simp: queryAt_def)
qed

lemmas classifier_eval =
  isXandeumVersion_def pnodePattern_def vnodePattern_def lit_def is_digit_def is_lower_hex_def

lemmas fallback_eval =
  queryKnownAddresses_def queryBatches.simps batchSize_def pushResult_def deduplicate_def
  dedup_step_def takes_place_def enumerate_eq_zip

text \<open>
  C2, as amended. A record of cluster discovery has its kind from the version
  classifier applied to its version. A record of the direct-query fallback, for a listed
  address or for a neighbour, has the kind set to true unconditionally.
\<close>

theorem kind_by_strategy:
  "(\<forall>n \<in> set (selectClusterNodes now allNodes). isPNode n = isXandeumVersion (version n))
   \<and> (\<forall>ns. snd (tryGetClusterNodesFromRpc env now svc) = Some ns
         \<longrightarrow> (\<forall>n \<in> set ns. isPNode n = isXandeumVersion (version n)))
   \<and> (\<forall>n \<in> set (snd (queryKnownAddresses rpc now svc addresses)). isPNode n)"
proof (intro conjI ballI allI impI)
  fix n
  assume "n \<in> set (selectClusterNodes now allNodes)"
  then show "isPNode n = isXandeumVersion (version n)"
    by (rule selectClusterNodes_kind)
next
  fix ns n
  assume "snd (tryGetClusterNodesFromRpc env now svc) = Some ns" and n: "n \<in> set ns"
  then obtain allNodes where "ns = selectClusterNodes now allNodes"
    unfolding tryGetClusterNodesFromRpc_def Let_def using try_endpoints_selected by blast
  with n show "isPNode n = isXandeumVersion (version n)"
    using selectClusterNodes_kind by blast
next
  fix n
  assume "n \<in> set (snd (queryKnownAddresses rpc now svc addresses))"
  then show "isPNode n"
    by (rule fallback_kind)
qed

theorem kind_by_strategy_witness:
  "selectClusterNodes 0 [scenario_entry] = [mapClusterNodeToPNode 0 scenario_entry]
   \<and> pubkey (mapClusterNodeToPNode 0 scenario_entry) = ''abc''
   \<and> version (mapClusterNodeToPNode 0 scenario_entry) = Some ''0.806.30102''
   \<and> isXandeumVersion (Some ''0.806.30102'')
   \<and> isPNode (mapClusterNodeToPNode 0 scenario_entry)
   \<and> ip (mapClusterNodeToPNode 0 scenario_entry) = Some ''1.2.3.4''
   \<and> gossipPort (mapClusterNodeToPNode 0 scenario_entry) = Num 8001
   \<and> health (mapClusterNodeToPNode 0 scenario_entry) = Healthy
   \<and> location (mapClusterNodeToPNode 0 scenario_entry) = None
   \<and> snd (tryGetClusterNodesFromRpc scenario_endpoint 0 fresh_service)
       = Some [mapClusterNodeToPNode 0 scenario_entry]
   \<and> snd (queryKnownAddresses all_null 0 fresh_service [''157.173.125.223:9001''])
       = [node (queryAddress 0 null_replies ''157.173.125.223:9001'')]
   \<and> isPNode (node (queryAddress 0 null_replies ''157.173.125.223:9001''))"
proof -
  have sel: "selectClusterNodes 0 [scenario_entry] = [mapClusterNodeToPNode 0 scenario_entry]"
    by (simp add: scenario_entry_def selectClusterNodes_def combinedNodesOf_def combine_step_def
        xandeumNodesOf_def knownIpNodesOf_def knownIps_def KNOWN_PNODE_ADDRESSES_def opt_part_def
        opt_split_def js_index_def js_or_def classifier_eval truthy_def)
  have fields: "pubkey (mapClusterNodeToPNode 0 scenario_entry) = ''abc''
      \<and> version (mapClusterNodeToPNode 0 scenario_entry) = Some ''0.806.30102''
      \<and> ip (mapClusterNodeToPNode 0 scenario_entry) = Some ''1.2.3.4''
      \<and> gossipPort (mapClusterNodeToPNode 0 scenario_entry) = Num 8001
      \<and> health (mapClusterNodeToPNode 0 scenario_entry) = Healthy
      \<and> location (mapClusterNodeToPNode 0 scenario_entry) = None"
    by (simp add: scenario_entry_def mapClusterNodeToPNode_def opt_split_def opt_part_def
        js_index_def truthy_def js_or_def parseInt_def is_js_space_def is_radix_digit_def
        digit_value_def digits_value_def to_double_def)
  have cls: "isXandeumVersion (Some ''0.806.30102'')"
    by (simp add: classifier_eval truthy_def)
  have ep: "snd (tryGetClusterNodesFromRpc scenario_endpoint 0 fresh_service)
      = Some (selectClusterNodes 0 [scenario_entry])"
    by (simp add: tryGetClusterNodesFromRpc_def fresh_service_def truthy_def
        XANDEUM_RPC_ENDPOINTS_def scenario_endpoint_def)
  have fb: "snd (queryKnownAddresses all_null 0 fresh_service [''157.173.125.223:9001''])
      = [node (queryAddress 0 null_replies ''157.173.125.223:9001'')]"
    by (simp add: fallback_eval all_null_def null_replies_def queryAddress_def Let_def)
  from sel fields cls ep fb show ?thesis
    using kind_by_strategy [of 0 "[scenario_entry]" scenario_endpoint fresh_service all_null
        "[''157.173.125.223:9001'']"]
    by simp
qed

text \<open>
  C2 as stated fails in the fallback: the record of an address that answered nothing has
  no version and the kind true, and the record of a neighbour with the version
  \<open>3.0.12\<close> has the kind true as well.
\<close>

theorem fallback_kind_fixed_counterexample:
  "isPNode (node (queryAddress 0 null_replies ''157.173.125.223:9001''))
   \<and> version (node (queryAddress 0 null_replies ''157.173.125.223:9001'')) = None
   \<and> \<not> isXandeumVersion (version (node (queryAddress 0 null_replies ''157.173.125.223:9001'')))
   \<and> isPNode (neighbourNode 0 generic_neighbour)
   \<and> version (neighbourNode 0 generic_neighbour) = Some ''3.0.12''
   \<and> \<not> isXandeumVersion (version (neighbourNode 0 generic_neighbour))"
  by (simp add: queryAddress_def null_replies_def Let_def neighbourNode_def generic_neighbour_def
      classifier_eval truthy_def js_or_def)

section \<open>Properties of the fallback\<close>

lemma queryAddress_all_null:
  assumes "all_calls_null replies"
  shows "pubkey (node (queryAddress now replies address))
           = synthesized_key (the (ip (node (queryAddress now replies address))))
               (rpcPort (node (queryAddress now replies address)))"
    and "ip (node (queryAddress now replies address)) = Some (hd (split_colon address))"
    and "health (node (queryAddress now replies address)) = Unknown"
    and "latency (node (queryAddress now replies address)) = None"
    and "version (node (queryAddress now replies address)) = None"
    and "clusterNodes (queryAddress now replies address) = None"
  using assms
  by (simp_all add: all_calls_null_def queryAddress_def Let_def truthy_def)

lemma queryKnownAddresses_nonempty:
  "addresses \<noteq> [] \<Longrightarrow> snd (queryKnownAddresses rpc now svc addresses) \<noteq> []"
proof -
  assume "addresses \<noteq> []"
  then have "0 < length addresses"
    by simp
  from produced_nodes_contains [OF this, of rpc now]
  have "fst (queryBatches rpc now addresses 0 ([], 0)) \<noteq> []"
    by (metis empty_iff empty_set)
  then show ?thesis
    unfolding queryKnownAddresses_result by (rule deduplicate_nonempty)
qed

lemma getPnodeGossip_nonempty: "snd (getPnodeGossip env rpc now svc) \<noteq> []"
proof -
  obtain svc1 rpcNodes
    where t: "tryGetClusterNodesFromRpc env now (svc\<lparr>lastError := None\<rparr>) = (svc1, rpcNodes)"
    by (metis surj_pair)
  show ?thesis
  proof (cases "rpcNodes \<noteq> None \<and> length (the rpcNodes) > 0")
    case True
    with t show ?thesis
      by (auto simp: getPnodeGossip_def)
  next
    case False
    have "getAllPNodeAddresses svc1 \<noteq> []"
      by (simp add: getAllPNodeAddresses_def KNOWN_PNODE_ADDRESSES_def)
    from queryKnownAddresses_nonempty [OF this] False t show ?thesis
      by (simp add: getPnodeGossip_def)
  qed
qed

lemma counted_queryAddress:
  "counted (queryAddress now replies address)
     = (if fst (getHealth replies) = None then 0 else 1)
       + (if fst (getVersion replies) = None then 0 else 1)"
  by (simp add: queryAddress_def Let_def split: option.splits prod.splits)

lemma reachable_queryAddress:
  "reachable (queryAddress now replies address) = (\<not> all_calls_null replies)"
  by (cases "fst (getHealth replies)"; cases "fst (getVersion replies)";
      cases "fst (getIdentity replies)"; cases "fst (getClusterNodes replies)")
     (simp_all add: queryAddress_def all_calls_null_def Let_def)

lemma try_endpoints_no_endpoint: "try_endpoints no_endpoint now svc i es = (svc, None)"
  by (induction es arbitrary: i) (simp_all add: no_endpoint_def)

lemma getPnodeGossip_no_endpoint:
  "getPnodeGossip no_endpoint rpc now svc
     = queryKnownAddresses rpc now (svc\<lparr>lastError := None\<rparr>)
         (getAllPNodeAddresses (svc\<lparr>lastError := None\<rparr>))"
  by (simp add: getPnodeGossip_def tryGetClusterNodesFromRpc_def Let_def try_endpoints_no_endpoint)

lemma queryKnownAddresses_state:
  "fst (queryKnownAddresses rpc now svc addresses)
     = (if snd (queryBatches rpc now addresses 0 ([], 0)) = 0
           \<and> length (fst (queryBatches rpc now addresses 0 ([], 0))) > 0
        then svc\<lparr>isConnected := False,
                 lastError := Some (unreachable_message
                    (length (fst (queryBatches rpc now addresses 0 ([], 0)))))\<rparr>
        else svc\<lparr>isConnected := (snd (queryBatches rpc now addresses 0 ([], 0)) > 0)\<rparr>)"
  by (simp add: queryKnownAddresses_def Let_def split: prod.splits)

lemma produced_without_neighbours:
  assumes "\<forall>k < length addresses. clusterNodes (queryAt rpc now addresses k) = None"
  shows "fst (queryBatches rpc now addresses 0 ([], 0))
           = map (\<lambda>k. node (queryAt rpc now addresses k)) [0..<length addresses]"
proof -
  let ?rs = "map (queryAt rpc now addresses) [0..<length addresses]"
  from pushResults_shape [of now "[]" ?rs] obtain zs
    where zs0: "foldl (pushResult now) [] ?rs = [] @ zs
        \<and> node ` set ?rs \<subseteq> set zs
        \<and> (\<forall>z \<in> set zs. z \<in> node ` set ?rs \<or> (\<exists>c. z = neighbourNode now c))
        \<and> length ?rs \<le> length zs
        \<and> ((\<forall>r \<in> set ?rs. clusterNodes r = None) \<longrightarrow> zs = map node ?rs)" ..
  from assms have "\<forall>r \<in> set ?rs. clusterNodes r = None"
    by auto
  with zs0 have "foldl (pushResult now) [] ?rs = map node ?rs"
    by simp
  then show ?thesis
    by (simp add: produced_nodes o_def)
qed

lemma first_healthy_clusterNodes:
  "clusterNodes (queryAt first_healthy now addresses k) = None"
  by (simp add: queryAt_def queryAddress_def first_healthy_def ok_replies_def
      null_replies_def Let_def)

lemma twice_listed_addresses:
  "getAllPNodeAddresses (twice_listed\<lparr>lastError := None\<rparr>)
     = KNOWN_PNODE_ADDRESSES @ [''157.173.125.223'']"
  by (simp add: getAllPNodeAddresses_def twice_listed_def fresh_service_def)

lemma twice_listed_first:
  "node (queryAt first_healthy 0 (KNOWN_PNODE_ADDRESSES @ [''157.173.125.223'']) 0)
     = \<lparr> pubkey = ''pnode-157-173-125-223-9001'', gossipPort = Num 9001, tpuPort = Num 0,
         rpcPort = Num 9001, version = None, health = Healthy, latency = Some 42,
         lastUpdate = 0, isPNode = True, ip = Some ''157.173.125.223'', location = None,
         featureSet = None, shredVersion = None \<rparr>"
  by (simp add: queryAt_def first_healthy_def ok_replies_def KNOWN_PNODE_ADDRESSES_def
      query_eval)

lemma twice_listed_last:
  "node (queryAt first_healthy 0 (KNOWN_PNODE_ADDRESSES @ [''157.173.125.223'']) 16)
     = \<lparr> pubkey = ''pnode-157-173-125-223-9001'', gossipPort = Num 9001, tpuPort = Num 0,
         rpcPort = Num 9001, version = None, health = Unknown, latency = None,
         lastUpdate = 0, isPNode = True, ip = Some ''157.173.125.223'', location = None,
         featureSet = None, shredVersion = None \<rparr>"
  by (simp add: queryAt_def first_healthy_def null_replies_def KNOWN_PNODE_ADDRESSES_def
      query_eval)

text \<open>
  C10, as amended. The fallback makes one record for each listed address, whatever the
  address answered, and returns records made, exactly one for each key among them: for
  each listed address the list returned holds a record under the key of that address's
  record, and it is not empty when an address is listed; \<open>getPnodeGossip\<close>, which
  always lists the known addresses, never returns the empty list. When the four calls
  for an address returned null, the record made for it has the key synthesized from its
  IP and port, health unknown and no latency. That record is itself returned when no
  other record made has its key; and when every record made under its key has health
  unknown and no latency, so has the record returned under the key. Two addresses whose
  records have the same key share one returned record.
\<close>

theorem fallback_record_per_address:
  assumes "k < length addresses"
  shows "node (queryAt rpc now addresses k) \<in> set (fst (queryBatches rpc now addresses 0 ([], 0)))
     \<and> set (snd (queryKnownAddresses rpc now svc addresses))
          \<subseteq> set (fst (queryBatches rpc now addresses 0 ([], 0)))
     \<and> pubkey ` set (snd (queryKnownAddresses rpc now svc addresses))
          = pubkey ` set (fst (queryBatches rpc now addresses 0 ([], 0)))
     \<and> distinct (map pubkey (snd (queryKnownAddresses rpc now svc addresses)))
     \<and> (\<exists>r \<in> set (snd (queryKnownAddresses rpc now svc addresses)).
            pubkey r = pubkey (node (queryAt rpc now addresses k)))
     \<and> (all_calls_null (rpc k (addresses ! k)) \<longrightarrow>
            pubkey (node (queryAt rpc now addresses k))
              = synthesized_key (the (ip (node (queryAt rpc now addresses k))))
                  (rpcPort (node (queryAt rpc now addresses k)))
          \<and> ip (node (queryAt rpc now addresses k)) = Some (hd (split_colon (addresses ! k)))
          \<and> health (node (queryAt rpc now addresses k)) = Unknown
          \<and> latency (node (queryAt rpc now addresses k)) = None)
     \<and> ((\<forall>m \<in> set (fst (queryBatches rpc now addresses 0 ([], 0))).
             pubkey m = pubkey (node (queryAt rpc now addresses k))
               \<longrightarrow> m = node (queryAt rpc now addresses k))
          \<longrightarrow> node (queryAt rpc now addresses k)
                \<in> set (snd (queryKnownAddresses rpc now svc addresses)))
     \<and> ((\<forall>m \<in> set (fst (queryBatches rpc now addresses 0 ([], 0))).
             pubkey m = pubkey (node (queryAt rpc now addresses k))
               \<longrightarrow> health m = Unknown \<and> latency m = None)
          \<longrightarrow> (\<forall>r \<in> set (snd (queryKnownAddresses rpc now svc addresses)).
                 pubkey r = pubkey (node (queryAt rpc now addresses k))
                   \<longrightarrow> health r = Unknown \<and> latency r = None))
     \<and> snd (queryKnownAddresses rpc now svc addresses) \<noteq> []
     \<and> snd (getPnodeGossip env rpc now svc) \<noteq> []"
proof -
  let ?q = "node (queryAt rpc now addresses k)"
  let ?produced = "fst (queryBatches rpc now addresses 0 ([], 0))"
  let ?returned = "snd (queryKnownAddresses rpc now svc addresses)"
  have mem: "?q \<in> set ?produced"
    using assms by (rule produced_nodes_contains)
  have sub: "set ?returned \<subseteq> set ?produced"
    unfolding queryKnownAddresses_result by (rule deduplicate_subset)
  have keys: "pubkey ` set ?returned = pubkey ` set ?produced"
    unfolding queryKnownAddresses_result by (rule deduplicate_keys)
  have dist: "distinct (map pubkey ?returned)"
    unfolding queryKnownAddresses_result by (rule deduplicate_distinct)
  from mem have "pubkey ?q \<in> pubkey ` set ?returned"
    unfolding keys by simp
  then have a: "\<exists>r \<in> set ?returned. pubkey r = pubkey ?q"
    by auto
  have b: "all_calls_null (rpc k (addresses ! k)) \<longrightarrow>
            pubkey ?q = synthesized_key (the (ip ?q)) (rpcPort ?q)
          \<and> ip ?q = Some (hd (split_colon (addresses ! k)))
          \<and> health ?q = Unknown \<and> latency ?q = None"
    unfolding queryAt_def using queryAddress_all_null by blast
  have c: "(\<forall>m \<in> set ?produced. pubkey m = pubkey ?q \<longrightarrow> m = ?q) \<longrightarrow> ?q \<in> set ?returned"
    unfolding queryKnownAddresses_result using deduplicate_keeps_unique [OF mem] by blast
  have c2: "(\<forall>m \<in> set ?produced. pubkey m = pubkey ?q \<longrightarrow> health m = Unknown \<and> latency m = None)
          \<longrightarrow> (\<forall>r \<in> set ?returned. pubkey r = pubkey ?q \<longrightarrow> health r = Unknown \<and> latency r = None)"
    using sub by blast
  have d: "?returned \<noteq> []"
    using assms by (intro queryKnownAddresses_nonempty) auto
  have e: "snd (getPnodeGossip env rpc now svc) \<noteq> []"
    by (rule getPnodeGossip_nonempty)
  show ?thesis
    by (intro conjI mem sub keys dist a b c c2 d e)
qed

theorem fallback_record_per_address_witness:
  "0 < length [''157.173.125.223:9001'']
   \<and> all_calls_null (all_null 0 ''157.173.125.223:9001'')
   \<and> fst (queryBatches all_null 0 [''157.173.125.223:9001''] 0 ([], 0))
       = [node (queryAt all_null 0 [''157.173.125.223:9001''] 0)]
   \<and> pubkey (node (queryAt all_null 0 [''157.173.125.223:9001''] 0)) = ''pnode-157-173-125-223-9001''
   \<and> health (node (queryAt all_null 0 [''157.173.125.223:9001''] 0)) = Unknown
   \<and> latency (node (queryAt all_null 0 [''157.173.125.223:9001''] 0)) = None
   \<and> snd (queryKnownAddresses all_null 0 fresh_service [''157.173.125.223:9001''])
       = [node (queryAt all_null 0 [''157.173.125.223:9001''] 0)]"
proof -
  have n: "all_calls_null (all_null 0 ''157.173.125.223:9001'')"
    by (simp add: all_calls_null_def all_null_def null_replies_def)
  have p: "fst (queryBatches all_null 0 [''157.173.125.223:9001''] 0 ([], 0))
       = [node (queryAt all_null 0 [''157.173.125.223:9001''] 0)]"
    by (simp add: queryBatches.simps batchSize_def enumerate_eq_zip pushResult_def queryAt_def
        queryAddress_def all_null_def null_replies_def Let_def)
  have k: "pubkey (node (queryAt all_null 0 [''157.173.125.223:9001''] 0))
      = ''pnode-157-173-125-223-9001''"
    by (simp add: queryAt_def all_null_def null_replies_def query_eval)
  from n p k show ?thesis
    using fallback_record_per_address [of 0 "[''157.173.125.223:9001'']" all_null 0 fresh_service
        no_endpoint]
    by (simp add: queryKnownAddresses_result deduplicate_def dedup_step_def takes_place_def)
qed

text \<open>
  C10 as stated fails. The user has added the first known address once more, without
  its port; no endpoint answers the cluster request, the first known address answers
  \<open>getHealth\<close> with \<open>ok\<close> after 42 ms and no other call is answered. Seventeen
  addresses are listed (\<open>addCustomPNode\<close> takes the address, which as a string is
  not among the known ones) and the four calls for the last returned null; its record
  has the key of the first address's record. At most sixteen records are returned, and
  the one record returned under that key is healthy with latency 42.
\<close>

theorem shared_key_counterexample:
  "getAllPNodeAddresses twice_listed = KNOWN_PNODE_ADDRESSES @ [''157.173.125.223'']
   \<and> length (getAllPNodeAddresses twice_listed) = 17
   \<and> all_calls_null (first_healthy 16 ''157.173.125.223'')
   \<and> pubkey (node (queryAt first_healthy 0 (getAllPNodeAddresses twice_listed) 16))
       = ''pnode-157-173-125-223-9001''
   \<and> length (snd (getPnodeGossip no_endpoint first_healthy 0 twice_listed)) \<le> 16
   \<and> map (\<lambda>r. (health r, latency r))
         (filter (\<lambda>r. pubkey r = ''pnode-157-173-125-223-9001'')
            (snd (getPnodeGossip no_endpoint first_healthy 0 twice_listed)))
       = [(Healthy, Some 42)]"
proof -
  let ?addresses = "KNOWN_PNODE_ADDRESSES @ [''157.173.125.223'']"
  let ?g = "\<lambda>k. node (queryAt first_healthy 0 ?addresses k)"
  let ?produced = "fst (queryBatches first_healthy 0 ?addresses 0 ([], 0))"
  let ?returned = "snd (getPnodeGossip no_endpoint first_healthy 0 twice_listed)"
  have addrs: "getAllPNodeAddresses twice_listed = ?addresses"
    by (simp add: getAllPNodeAddresses_def twice_listed_def fresh_service_def)
  have len: "length ?addresses = 17"
    by (simp add: KNOWN_PNODE_ADDRESSES_def)
  have null: "all_calls_null (first_healthy 16 ''157.173.125.223'')"
    by (simp add: all_calls_null_def first_healthy_def null_replies_def)
  have produced: "?produced = map ?g [0..<length ?addresses]"
    by (rule produced_without_neighbours) (simp add: first_healthy_clusterNodes)
  have result: "?returned = deduplicate ?produced"
    unfolding getPnodeGossip_no_endpoint twice_listed_addresses queryKnownAddresses_result ..
  have upt: "[0..<17] = 0 # [1..<17]"
    by (simp add: upt_conv_Cons)
  have split: "?produced = ?g 0 # map ?g [1..<17]"
    unfolding produced len upt by simp
  have good: "health (?g 0) = Healthy" "latency (?g 0) \<noteq> None"
      "pubkey (?g 0) = ''pnode-157-173-125-223-9001''"
    by (simp_all add: twice_listed_first)
  have last: "pubkey (?g 16) = ''pnode-157-173-125-223-9001''"
    by (simp add: twice_listed_last)
  have "?g 0 \<in> set ?returned"
    unfolding result split using good(1,2) by (rule deduplicate_keeps_first)
  with filter_key_single [of pubkey ?returned "?g 0"] deduplicate_distinct [of ?produced]
  have "filter (\<lambda>r. pubkey r = pubkey (?g 0)) ?returned = [?g 0]"
    unfolding result by simp
  then have only: "filter (\<lambda>r. pubkey r = ''pnode-157-173-125-223-9001'') ?returned = [?g 0]"
    unfolding good(3) .
  have "set ?produced = ?g ` {0..<17}"
    unfolding produced len by simp
  also have "{0..<17::nat} = insert 16 {0..<16}"
    by auto
  finally have "pubkey ` set ?produced = insert (pubkey (?g 16)) ((\<lambda>k. pubkey (?g k)) ` {0..<16})"
    by (simp add: image_image)
  also have "\<dots> = (\<lambda>k. pubkey (?g k)) ` {0..<16}"
    using good(3) last by (intro insert_absorb) (auto intro!: image_eqI [where x = 0])
  finally have "card (pubkey ` set ?produced) \<le> card {0..<16::nat}"
    by (simp only: card_image_le finite_atLeastLessThan)
  then have short: "length ?returned \<le> 16"
    unfolding result deduplicate_length by simp
  from addrs len null last short only show ?thesis
    by (simp add: twice_listed_first)
qed

lemma first_identity_only_counted:
  "counted (queryAt first_identity_only now addresses k) = 0"
  by (simp add: queryAt_def counted_queryAddress first_identity_only_def identity_only_replies_def
      null_replies_def)

lemma first_identity_only_clusterNodes:
  "clusterNodes (queryAt first_identity_only now addresses k) = None"
  by (simp add: queryAt_def queryAddress_def first_identity_only_def identity_only_replies_def
      null_replies_def Let_def)

lemma first_identity_only_first:
  "pubkey (node (queryAt first_identity_only now addresses 0)) = ''abc''"
  "health (node (queryAt first_identity_only now addresses 0)) = Healthy"
  "latency (node (queryAt first_identity_only now addresses 0)) = Some 24007"
  "reachable (queryAt first_identity_only now addresses 0)"
  by (simp_all add: queryAt_def queryAddress_def first_identity_only_def identity_only_replies_def
      Let_def truthy_def js_or_def)

lemma first_identity_only_rest:
  "k \<noteq> 0 \<Longrightarrow> pubkey (node (queryAt first_identity_only now addresses k)) \<noteq> ''abc''"
  by (simp add: queryAt_def queryAddress_def first_identity_only_def null_replies_def
      Let_def truthy_def synthesized_key_def)

text \<open>
  C5 at an input where the code departs from it. No endpoint answers the cluster request
  and, of the sixteen known addresses, the first answers \<open>getIdentity\<close> alone. Its
  record is reachable and healthy with a latency, and it is returned; yet
  \<open>connectedCount\<close>, which only the answers to \<open>getHealth\<close> and \<open>getVersion\<close>
  increase, is zero: the service is marked not connected and the error that no address
  could be reached is recorded.
\<close>

theorem identity_answer_not_counted:
  "reachable (queryAt first_identity_only 0 KNOWN_PNODE_ADDRESSES 0)
   \<and> health (node (queryAt first_identity_only 0 KNOWN_PNODE_ADDRESSES 0)) = Healthy
   \<and> latency (node (queryAt first_identity_only 0 KNOWN_PNODE_ADDRESSES 0)) = Some 24007
   \<and> lastError (fst (getPnodeGossip no_endpoint first_identity_only 0 fresh_service))
       = Some (unreachable_message 16)
   \<and> isConnected (fst (getPnodeGossip no_endpoint first_identity_only 0 fresh_service)) = False
   \<and> (\<exists>n \<in> set (snd (getPnodeGossip no_endpoint first_identity_only 0 fresh_service)).
         pubkey n = ''abc'' \<and> health n = Healthy)"
proof -
  let ?rpc = first_identity_only
  let ?addresses = "getAllPNodeAddresses (fresh_service\<lparr>lastError := None\<rparr>)"
  let ?produced = "fst (queryBatches ?rpc 0 ?addresses 0 ([], 0))"
  let ?q = "node (queryAt ?rpc 0 ?addresses 0)"
  have addrs: "?addresses = KNOWN_PNODE_ADDRESSES"
    by (simp add: getAllPNodeAddresses_def fresh_service_def)
  have len: "length KNOWN_PNODE_ADDRESSES = 16"
    by (simp add: KNOWN_PNODE_ADDRESSES_def)
  have produced: "?produced = map (\<lambda>k. node (queryAt ?rpc 0 ?addresses k)) [0..<length ?addresses]"
    by (rule produced_without_neighbours) (simp add: first_identity_only_clusterNodes)
  then have plen: "length ?produced = 16"
    using addrs len by simp
  have count: "snd (queryBatches ?rpc 0 ?addresses 0 ([], 0)) = 0"
    by (simp add: produced_nodes first_identity_only_counted o_def)
  have state: "fst (getPnodeGossip no_endpoint ?rpc 0 fresh_service)
      = fresh_service\<lparr>lastError := None, isConnected := False,
          lastError := Some (unreachable_message 16)\<rparr>"
    unfolding getPnodeGossip_no_endpoint queryKnownAddresses_state using count plen by simp
  have result: "snd (getPnodeGossip no_endpoint ?rpc 0 fresh_service) = deduplicate ?produced"
    unfolding getPnodeGossip_no_endpoint queryKnownAddresses_result ..
  have "?q \<in> set ?produced"
    by (rule produced_nodes_contains) (simp add: addrs len)
  then have "pubkey ?q \<in> pubkey ` set (deduplicate ?produced)"
    unfolding deduplicate_keys by simp
  then obtain r where r: "r \<in> set (deduplicate ?produced)" "pubkey r = ''abc''"
    by (auto simp: first_identity_only_first)
  from r(1) deduplicate_subset have "r \<in> set ?produced"
    by blast
  then obtain k where k: "r = node (queryAt ?rpc 0 ?addresses k)"
    unfolding produced by auto
  with r(2) first_identity_only_rest [of k 0 ?addresses] have "k = 0"
    by auto
  with k have "health r = Healthy"
    by (simp add: first_identity_only_first)
  with r have kept: "\<exists>n \<in> set (deduplicate ?produced). pubkey n = ''abc'' \<and> health n = Healthy"
    by blast
  show ?thesis
    unfolding state result using kept by (simp add: first_identity_only_first)
qed

section \<open>Properties of cluster discovery\<close>

lemma update_set_subset: "set (AList.update k v m) \<subseteq> insert (k, v) (set m)"
  by (induction m) auto

lemma combine_step_keys:
  "fst ` set (combine_step m entry)
     = fst ` set m \<union> {k. cn_pubkey entry = Some k \<and> k \<noteq> []}"
proof (cases "truthy (cn_pubkey entry)")
  case True
  then obtain k where k: "cn_pubkey entry = Some k" "k \<noteq> []"
    by (cases "cn_pubkey entry") (auto simp: truthy_def)
  then show ?thesis
    using dom_update [of k entry m] by (auto simp: combine_step_def truthy_def)
next
  case False
  then show ?thesis
    by (cases "cn_pubkey entry") (auto simp: combine_step_def truthy_def)
qed

lemma combine_step_values:
  "(k, v) \<in> set (combine_step m entry) \<Longrightarrow>
     (k, v) \<in> set m \<or> (v = entry \<and> cn_pubkey entry = Some k \<and> k \<noteq> [])"
proof (cases "truthy (cn_pubkey entry)")
  case True
  assume kv: "(k, v) \<in> set (combine_step m entry)"
  from True obtain k' where k': "cn_pubkey entry = Some k'" "k' \<noteq> []"
    by (cases "cn_pubkey entry") (auto simp: truthy_def)
  with True kv have "(k, v) \<in> insert (k', entry) (set m)"
    using update_set_subset [of k' entry m] by (auto simp: combine_step_def)
  with k' show ?thesis
    by auto
next
  case False
  assume "(k, v) \<in> set (combine_step m entry)"
  with False show ?thesis
    by (simp add: combine_step_def)
qed

lemma combine_step_distinct: "distinct (map fst m) \<Longrightarrow> distinct (map fst (combine_step m entry))"
  by (simp add: combine_step_def distinct_update)

lemma foldl_combine_keys:
  "fst ` set (foldl combine_step m es)
     = fst ` set m \<union> {k. \<exists>entry \<in> set es. cn_pubkey entry = Some k \<and> k \<noteq> []}"
proof (induction es arbitrary: m)
  case Nil
  show ?case by simp
next
  case (Cons e es)
  show ?case
    unfolding foldl_Cons Cons.IH combine_step_keys by auto
qed

lemma foldl_combine_values:
  "(k, v) \<in> set (foldl combine_step m es) \<Longrightarrow>
     (k, v) \<in> set m \<or> (v \<in> set es \<and> cn_pubkey v = Some k \<and> k \<noteq> [])"
proof (induction es arbitrary: m)
  case Nil
  then show ?case by simp
next
  case (Cons e es)
  from Cons.prems have "(k, v) \<in> set (foldl combine_step (combine_step m e) es)"
    by simp
  from Cons.IH [OF this] combine_step_values [of k v m e] show ?case
    by auto
qed

lemma foldl_combine_distinct:
  "distinct (map fst m) \<Longrightarrow> distinct (map fst (foldl combine_step m es))"
  by (induction es arbitrary: m) (simp_all add: combine_step_distinct)

lemma combinedNodesOf_keys: "fst ` set (combinedNodesOf allNodes) = carried_keys allNodes"
  unfolding combinedNodesOf_def carried_keys_def foldl_combine_keys by auto

lemma combinedNodesOf_values:
  assumes "(k, v) \<in> set (combinedNodesOf allNodes)"
  shows "cn_pubkey v = Some k \<and> k \<noteq> []
      \<and> (v \<in> set (xandeumNodesOf allNodes) \<or> v \<in> set (knownIpNodesOf allNodes))"
  using foldl_combine_values [OF assms [unfolded combinedNodesOf_def]] by auto

lemma combinedNodesOf_distinct: "distinct (map fst (combinedNodesOf allNodes))"
  unfolding combinedNodesOf_def by (rule foldl_combine_distinct) simp

lemma combine_step_map_of:
  "k \<noteq> [] \<Longrightarrow>
     map_of (combine_step m entry) k = (if cn_pubkey entry = Some k then Some entry else map_of m k)"
  by (cases "cn_pubkey entry") (auto simp: combine_step_def truthy_def update_conv)

lemma foldl_combine_map_of:
  "k \<noteq> [] \<Longrightarrow>
     map_of (foldl combine_step m es) k
       = (if filter (\<lambda>entry. cn_pubkey entry = Some k) es = [] then map_of m k
          else Some (last (filter (\<lambda>entry. cn_pubkey entry = Some k) es)))"
proof (induction es arbitrary: m)
  case Nil
  show ?case by simp
next
  case (Cons e es)
  from Cons.IH [OF Cons.prems, of "combine_step m e"] combine_step_map_of [OF Cons.prems, of m e]
  show ?case
    by simp
qed

lemma combinedNodesOf_kept:
  assumes "(k, v) \<in> set (combinedNodesOf allNodes)"
  shows "v = kept_entry allNodes k"
proof -
  let ?es = "xandeumNodesOf allNodes @ knownIpNodesOf allNodes"
  from combinedNodesOf_values [OF assms] have k: "k \<noteq> []" and v: "cn_pubkey v = Some k"
    and m: "v \<in> set ?es"
    by auto
  from v m have ne: "filter (\<lambda>entry. cn_pubkey entry = Some k) ?es \<noteq> []"
    by (auto simp: filter_empty_conv)
  from assms combinedNodesOf_distinct [of allNodes]
  have "map_of (combinedNodesOf allNodes) k = Some v"
    by simp
  with foldl_combine_map_of [OF k, of "[]" ?es] ne show ?thesis
    by (simp add: combinedNodesOf_def kept_entry_def del: filter_append)
qed

lemma mapped_pubkeys:
  "map pubkey (map (mapClusterNodeToPNode now) (map snd (combinedNodesOf allNodes)))
     = map fst (combinedNodesOf allNodes)"
proof -
  have "\<And>p. p \<in> set (combinedNodesOf allNodes) \<Longrightarrow>
      pubkey (mapClusterNodeToPNode now (snd p)) = fst p"
  proof -
    fix p
    assume "p \<in> set (combinedNodesOf allNodes)"
    then have "(fst p, snd p) \<in> set (combinedNodesOf allNodes)"
      by simp
    from combinedNodesOf_values [OF this] show "pubkey (mapClusterNodeToPNode now (snd p)) = fst p"
      by (simp add: mapClusterNodeToPNode_def Let_def truthy_def)
  qed
  then show ?thesis
    by (simp add: map_eq_conv)
qed

lemma mapped_kept:
  assumes "p \<in> set (combinedNodesOf allNodes)"
  shows "mapClusterNodeToPNode now (snd p)
      = mapClusterNodeToPNode now (kept_entry allNodes (pubkey (mapClusterNodeToPNode now (snd p))))"
proof -
  from assms have m: "(fst p, snd p) \<in> set (combinedNodesOf allNodes)"
    by simp
  from combinedNodesOf_values [OF m] have "pubkey (mapClusterNodeToPNode now (snd p)) = fst p"
    by (simp add: mapClusterNodeToPNode_def Let_def truthy_def)
  with combinedNodesOf_kept [OF m] show ?thesis
    by simp
qed

text \<open>
  C8, as amended. In cluster discovery the entries of the two subsets that carry a
  non-empty identity key are united by that key; an entry of either subset without a key
  is left out. When no entry of either subset carries a key, as when both subsets are
  empty, the whole array is returned, each entry mapped to a record. Otherwise only
  records of keyed entries of the subsets are returned: their keys are the keys carried,
  each key once, and the record of a key is that of the entry met last under it, so an
  entry present in both subsets appears once.
\<close>

theorem selectClusterNodes_union:
  "(carried_keys allNodes = {} \<longrightarrow>
      selectClusterNodes now allNodes = map (mapClusterNodeToPNode now) allNodes)
   \<and> (xandeumNodesOf allNodes = [] \<and> knownIpNodesOf allNodes = [] \<longrightarrow>
        carried_keys allNodes = {})
   \<and> (carried_keys allNodes \<noteq> {} \<longrightarrow>
        selectClusterNodes now allNodes
          = map (mapClusterNodeToPNode now) (map snd (combinedNodesOf allNodes))
        \<and> pubkey ` set (selectClusterNodes now allNodes) = carried_keys allNodes
        \<and> distinct (map pubkey (selectClusterNodes now allNodes))
        \<and> list_all (\<lambda>p. p = mapClusterNodeToPNode now (kept_entry allNodes (pubkey p)))
             (selectClusterNodes now allNodes)
        \<and> list_all (\<lambda>entry. entry \<in> set (xandeumNodesOf allNodes)
                        \<or> entry \<in> set (knownIpNodesOf allNodes))
             (map snd (combinedNodesOf allNodes)))"
proof (intro conjI impI)
  assume "carried_keys allNodes = {}"
  then have "combinedNodesOf allNodes = []"
    unfolding combinedNodesOf_keys [symmetric] by simp
  then show "selectClusterNodes now allNodes = map (mapClusterNodeToPNode now) allNodes"
    by (simp add: selectClusterNodes_def)
next
  assume "xandeumNodesOf allNodes = [] \<and> knownIpNodesOf allNodes = []"
  then show "carried_keys allNodes = {}"
    by (simp add: carried_keys_def)
next
  assume ne: "carried_keys allNodes \<noteq> {}"
  then have "combinedNodesOf allNodes \<noteq> []"
    unfolding combinedNodesOf_keys [symmetric] by auto
  then show sel: "selectClusterNodes now allNodes
      = map (mapClusterNodeToPNode now) (map snd (combinedNodesOf allNodes))"
    by (simp add: selectClusterNodes_def Let_def)
  have "pubkey ` set (selectClusterNodes now allNodes)
      = set (map pubkey (map (mapClusterNodeToPNode now) (map snd (combinedNodesOf allNodes))))"
    unfolding sel by (simp add: image_image)
  then show "pubkey ` set (selectClusterNodes now allNodes) = carried_keys allNodes"
    unfolding mapped_pubkeys combinedNodesOf_keys [symmetric] by simp
  show "distinct (map pubkey (selectClusterNodes now allNodes))"
    unfolding sel mapped_pubkeys by (rule combinedNodesOf_distinct)
  show "list_all (\<lambda>p. p = mapClusterNodeToPNode now (kept_entry allNodes (pubkey p)))
             (selectClusterNodes now allNodes)"
    unfolding sel list_all_iff using mapped_kept [of _ allNodes now] by auto
  show "list_all (\<lambda>entry. entry \<in> set (xandeumNodesOf allNodes)
                        \<or> entry \<in> set (knownIpNodesOf allNodes))
             (map snd (combinedNodesOf allNodes))"
    unfolding list_all_iff using combinedNodesOf_values by force
qed

theorem selectClusterNodes_union_witness:
  "carried_keys [generic_neighbour] = {}
   \<and> xandeumNodesOf [generic_neighbour] = []
   \<and> knownIpNodesOf [generic_neighbour] = []
   \<and> selectClusterNodes 0 [generic_neighbour] = [mapClusterNodeToPNode 0 generic_neighbour]
   \<and> known_xandeum_entry \<in> set (xandeumNodesOf [known_xandeum_entry, generic_neighbour])
   \<and> known_xandeum_entry \<in> set (knownIpNodesOf [known_xandeum_entry, generic_neighbour])
   \<and> carried_keys [known_xandeum_entry, generic_neighbour] = {''xyz''}
   \<and> kept_entry [known_xandeum_entry, generic_neighbour] ''xyz'' = known_xandeum_entry
   \<and> selectClusterNodes 0 [known_xandeum_entry, generic_neighbour]
       = [mapClusterNodeToPNode 0 known_xandeum_entry]"
proof -
  have x1: "xandeumNodesOf [generic_neighbour] = []"
    by (simp add: xandeumNodesOf_def generic_neighbour_def classifier_eval truthy_def)
  have k1: "knownIpNodesOf [generic_neighbour] = []"
    by (simp add: knownIpNodesOf_def generic_neighbour_def knownIps_def KNOWN_PNODE_ADDRESSES_def
        opt_part_def opt_split_def js_index_def js_or_def truthy_def)
  have x2: "xandeumNodesOf [known_xandeum_entry, generic_neighbour] = [known_xandeum_entry]"
    by (simp add: xandeumNodesOf_def generic_neighbour_def known_xandeum_entry_def
        classifier_eval truthy_def)
  have k2: "knownIpNodesOf [known_xandeum_entry, generic_neighbour] = [known_xandeum_entry]"
    by (simp add: knownIpNodesOf_def generic_neighbour_def known_xandeum_entry_def knownIps_def
        KNOWN_PNODE_ADDRESSES_def opt_part_def opt_split_def js_index_def js_or_def truthy_def)
  have u1: "carried_keys [generic_neighbour] = {}"
    by (simp add: carried_keys_def x1 k1)
  have u2: "carried_keys [known_xandeum_entry, generic_neighbour] = {''xyz''}"
    unfolding carried_keys_def x2 k2 by (auto simp: known_xandeum_entry_def)
  have e2: "kept_entry [known_xandeum_entry, generic_neighbour] ''xyz'' = known_xandeum_entry"
    unfolding kept_entry_def x2 k2 by (simp add: known_xandeum_entry_def)
  have c2: "combinedNodesOf [known_xandeum_entry, generic_neighbour]
      = [(''xyz'', known_xandeum_entry)]"
    unfolding combinedNodesOf_def x2 k2
    by (simp add: combine_step_def truthy_def known_xandeum_entry_def)
  from u1 u2 x1 k1 x2 k2 e2 c2 show ?thesis
    using selectClusterNodes_union [of "[generic_neighbour]" 0]
      selectClusterNodes_union [of "[known_xandeum_entry, generic_neighbour]" 0]
    by simp
qed

text \<open>
  C8 as stated fails: an entry with a Xandeum version and no \<open>pubkey\<close> is in the
  version-classified subset, so the union of the two subsets is not empty; yet it
  carries no key, and the whole array is returned, with the generic entry that is in
  neither subset.
\<close>

theorem keyless_entry_counterexample:
  "xandeumNodesOf [keyless_xandeum_entry, generic_neighbour] = [keyless_xandeum_entry]
   \<and> knownIpNodesOf [keyless_xandeum_entry, generic_neighbour] = []
   \<and> selectClusterNodes 0 [keyless_xandeum_entry, generic_neighbour]
       = [mapClusterNodeToPNode 0 keyless_xandeum_entry, mapClusterNodeToPNode 0 generic_neighbour]
   \<and> isPNode (mapClusterNodeToPNode 0 generic_neighbour) = False"
proof -
  have x: "xandeumNodesOf [keyless_xandeum_entry, generic_neighbour] = [keyless_xandeum_entry]"
    by (simp add: xandeumNodesOf_def generic_neighbour_def keyless_xandeum_entry_def
        classifier_eval truthy_def)
  have k: "knownIpNodesOf [keyless_xandeum_entry, generic_neighbour] = []"
    by (simp add: knownIpNodesOf_def generic_neighbour_def keyless_xandeum_entry_def knownIps_def
        KNOWN_PNODE_ADDRESSES_def opt_part_def opt_split_def js_index_def js_or_def truthy_def)
  have c: "combinedNodesOf [keyless_xandeum_entry, generic_neighbour] = []"
    unfolding combinedNodesOf_def x k
    by (simp add: combine_step_def truthy_def keyless_xandeum_entry_def)
  have g: "isPNode (mapClusterNodeToPNode 0 generic_neighbour) = False"
    by (simp add: mapClusterNodeToPNode_def generic_neighbour_def classifier_eval truthy_def
        Let_def)
  from x k c g show ?thesis
    by (simp add: selectClusterNodes_def)
qed

section \<open>Properties of the refresh hook\<close>

lemma filter_update_le:
  "length (filter P (xs[i := x])) \<le> Suc (length (filter P xs))"
proof (induction xs arbitrary: i)
  case Nil
  show ?case by simp
next
  case (Cons y ys)
  show ?case
  proof (cases i)
    case 0
    then show ?thesis by simp
  next
    case (Suc j)
    with Cons.IH [of j] show ?thesis by simp
  qed
qed

lemma insert_by_filter:
  "length (filter P (insert_by cmp x ys)) = length (filter P (x # ys))"
  by (induction ys) auto

lemma sort_by_filter: "length (filter P (sort_by cmp xs)) = length (filter P xs)"
proof (induction xs)
  case Nil
  show ?case by (simp add: sort_by_def)
next
  case (Cons x xs)
  have "sort_by cmp (x # xs) = insert_by cmp x (sort_by cmp xs)"
    by (simp add: sort_by_def)
  with Cons.IH show ?case
    by (simp add: insert_by_filter)
qed

lemma getGeoLocation_events: "snd (getGeoLocation reply a) = lookup_events a"
  by (cases reply) (simp_all add: getGeoLocation_def lookup_events_def)

lemma enrichNodeWithGeo_events:
  "truthy (ip candidate) \<Longrightarrow>
     snd (enrichNodeWithGeo reply candidate idx prev) = lookup_events (the (ip candidate))"
  by (simp add: enrichNodeWithGeo_def case_prod_beta getGeoLocation_events split: option.splits)

lemma enrichNodeWithGeo_located:
  "length (filter is_located (fst (enrichNodeWithGeo reply candidate idx prev)))
     \<le> Suc (length (filter is_located prev))"
  using filter_update_le [of is_located prev]
  by (simp add: enrichNodeWithGeo_def case_prod_beta le_SucI split: option.splits)

lemma enrichLoop_Cons:
  "enrichLoop geo sortedNodes i (c # rest) published
     = (fst (enrichLoop geo sortedNodes (Suc i) rest
               (fst (enrichNodeWithGeo (geo i (case ip c of None \<Rightarrow> [] | Some a \<Rightarrow> a)) c
                       (findIndex (\<lambda>n. pubkey n = pubkey c) sortedNodes) published))),
        snd (enrichNodeWithGeo (geo i (case ip c of None \<Rightarrow> [] | Some a \<Rightarrow> a)) c
               (findIndex (\<lambda>n. pubkey n = pubkey c) sortedNodes) published)
          @ (if rest \<noteq> [] then [Pause 1500] else [])
          @ snd (enrichLoop geo sortedNodes (Suc i) rest
                   (fst (enrichNodeWithGeo (geo i (case ip c of None \<Rightarrow> [] | Some a \<Rightarrow> a)) c
                           (findIndex (\<lambda>n. pubkey n = pubkey c) sortedNodes) published))))"
  by (simp add: Let_def case_prod_beta)

lemma enrichLoop_events:
  "list_all (\<lambda>n. truthy (ip n)) candidates \<Longrightarrow>
     snd (enrichLoop geo sortedNodes i candidates published)
       = sequential_enrichment (map (\<lambda>n. the (ip n)) candidates)"
proof (induction candidates arbitrary: i published)
  case Nil
  show ?case by simp
next
  case (Cons c rest)
  from Cons.prems have c: "truthy (ip c)" and rest: "list_all (\<lambda>n. truthy (ip n)) rest"
    by simp_all
  note ev = enrichNodeWithGeo_events [OF c]
  note ih = Cons.IH [OF rest]
  show ?case
  proof (cases rest)
    case Nil
    then show ?thesis
      unfolding enrichLoop_Cons by (simp add: ev)
  next
    case (Cons d more)
    then show ?thesis
      unfolding enrichLoop_Cons ih ev by simp
  qed
qed

lemma enrichLoop_located:
  "length (filter is_located (fst (enrichLoop geo sortedNodes i candidates published)))
     \<le> length (filter is_located published) + length candidates"
proof (induction candidates arbitrary: i published)
  case Nil
  show ?case by simp
next
  case (Cons c rest)
  let ?idx = "findIndex (\<lambda>n. pubkey n = pubkey c) sortedNodes"
  let ?step = "enrichNodeWithGeo (geo i (case ip c of None \<Rightarrow> [] | Some a \<Rightarrow> a)) c ?idx published"
  have "length (filter is_located (fst (enrichLoop geo sortedNodes (Suc i) rest (fst ?step))))
      \<le> length (filter is_located (fst ?step)) + length rest"
    by (rule Cons.IH)
  also have "\<dots> \<le> Suc (length (filter is_located published)) + length rest"
    using enrichNodeWithGeo_located [of "geo i (case ip c of None \<Rightarrow> [] | Some a \<Rightarrow> a)" c ?idx published]
    by simp
  finally show ?case
    unfolding enrichLoop_Cons by simp
qed

lemma nodesWithIpOf_bound: "length (nodesWithIpOf sortedNodes) \<le> 17"
  by (simp add: nodesWithIpOf_def)

lemma nodesWithIpOf_truthy: "list_all (\<lambda>n. truthy (ip n)) (nodesWithIpOf sortedNodes)"
  unfolding nodesWithIpOf_def list_all_iff by (auto dest: in_set_takeD)

lemma nodesWithIpOf_selection:
  "nodesWithIpOf sortedNodes
     = take 17 (filter (\<lambda>n. ip n \<noteq> None \<and> ip n \<noteq> Some []) sortedNodes)"
proof -
  have "filter (\<lambda>n. truthy (ip n)) sortedNodes
      = filter (\<lambda>n. ip n \<noteq> None \<and> ip n \<noteq> Some []) sortedNodes"
    by (rule filter_cong) (auto simp: truthy_def split: option.splits)
  then show ?thesis
    unfolding nodesWithIpOf_def by (rule arg_cong)
qed

lemma refreshNodes_events:
  "snd (refreshNodes geo now (Inr fetched) st) = sequential_enrichment (candidate_addresses fetched)"
proof (cases "fetched = []")
  case True
  then show ?thesis
    by (simp add: refreshNodes_def candidate_addresses_def nodesWithIpOf_def sort_by_def)
next
  case False
  then show ?thesis
    using enrichLoop_events [OF nodesWithIpOf_truthy]
    by (simp add: refreshNodes_def candidate_addresses_def Let_def case_prod_beta)
qed

lemma refreshNodes_located:
  "length (filter is_located (nodes (fst (refreshNodes geo now (Inr fetched) st))))
     \<le> length (filter is_located (if fetched = [] then nodes st else fetched)) + 17"
proof (cases "fetched = []")
  case True
  then show ?thesis
    by (simp add: refreshNodes_def)
next
  case False
  let ?sorted = "sort_by compareNodes fetched"
  have "length (filter is_located (fst (enrichLoop geo ?sorted 0 (nodesWithIpOf ?sorted) ?sorted)))
      \<le> length (filter is_located ?sorted) + length (nodesWithIpOf ?sorted)"
    by (rule enrichLoop_located)
  also have "\<dots> \<le> length (filter is_located fetched) + 17"
    using nodesWithIpOf_bound [of ?sorted] by (simp add: sort_by_filter)
  finally show ?thesis
    using False by (simp add: refreshNodes_def Let_def case_prod_beta)
qed

lemma sequential_enrichment_lookups:
  "filter (\<lambda>e. \<not> is_request e) (sequential_enrichment as) = alternating Geo_lookup as"
  by (induction as rule: sequential_enrichment.induct)
     (simp_all add: lookup_events_def is_request_def)

lemma sequential_enrichment_requests:
  "list_all (\<lambda>a. \<not> geo_skipped a) as \<Longrightarrow>
     filter (\<lambda>e. \<not> is_lookup e) (sequential_enrichment as) = alternating Geo_request as"
  by (induction as rule: sequential_enrichment.induct)
     (simp_all add: lookup_events_def is_lookup_def)

lemma sequential_enrichment_request_count:
  "length (filter is_request (sequential_enrichment as)) \<le> length as"
  by (induction as rule: sequential_enrichment.induct)
     (simp_all add: lookup_events_def is_request_def)

lemma sequential_enrichment_allowed:
  "list_all request_allowed (sequential_enrichment as)"
  by (induction as rule: sequential_enrichment.induct)
     (simp_all add: lookup_events_def request_allowed_def)

lemma candidate_addresses_bound: "length (candidate_addresses fetched) \<le> 17"
  by (simp add: candidate_addresses_def nodesWithIpOf_bound)

lemma selectClusterNodes_unlocated:
  "n \<in> set (selectClusterNodes now allNodes) \<Longrightarrow> location n = None"
  by (auto simp: selectClusterNodes_def mapClusterNodeToPNode_def Let_def split: if_splits)

lemma queryAddress_unlocated: "location (node (queryAddress now replies address)) = None"
  by (simp add: queryAddress_def Let_def case_prod_beta)

lemma neighbourNode_unlocated: "location (neighbourNode now c) = None"
  by (simp add: neighbourNode_def)

lemma fallback_unlocated:
  "n \<in> set (snd (queryKnownAddresses rpc now svc addresses)) \<Longrightarrow> location n = None"
proof -
  assume "n \<in> set (snd (queryKnownAddresses rpc now svc addresses))"
  then have "n \<in> set (fst (queryBatches rpc now addresses 0 ([], 0)))"
    using deduplicate_subset unfolding queryKnownAddresses_result by blast
  from produced_nodes_cases [OF this] show "location n = None"
    using queryAddress_unlocated neighbourNode_unlocated by (auto simp: queryAt_def)
qed

lemma getPnodeGossip_unlocated:
  "n \<in> set (snd (getPnodeGossip env rpc now svc)) \<Longrightarrow> location n = None"
proof -
  assume n: "n \<in> set (snd (getPnodeGossip env rpc now svc))"
  obtain svc1 rpcNodes
    where t: "tryGetClusterNodesFromRpc env now (svc\<lparr>lastError := None\<rparr>) = (svc1, rpcNodes)"
    by (metis surj_pair)
  show ?thesis
  proof (cases "rpcNodes \<noteq> None \<and> length (the rpcNodes) > 0")
    case True
    then obtain ns where ns: "rpcNodes = Some ns"
      by auto
    with t have "snd (try_endpoints env now (svc\<lparr>lastError := None\<rparr>) 0
        (if truthy (centralRpcEndpoint (svc\<lparr>lastError := None\<rparr>))
         then the (centralRpcEndpoint (svc\<lparr>lastError := None\<rparr>)) # XANDEUM_RPC_ENDPOINTS
         else XANDEUM_RPC_ENDPOINTS)) = Some ns"
      by (simp add: tryGetClusterNodesFromRpc_def Let_def)
    from try_endpoints_selected [OF this] obtain allNodes
      where "ns = selectClusterNodes now allNodes" ..
    moreover from n t True ns have "n \<in> set ns"
      by (simp add: getPnodeGossip_def)
    ultimately show ?thesis
      using selectClusterNodes_unlocated by blast
  next
    case False
    with n t have "n \<in> set (snd (queryKnownAddresses rpc now svc1 (getAllPNodeAddresses svc1)))"
      by (auto simp: getPnodeGossip_def)
    then show ?thesis
      by (rule fallback_unlocated)
  qed
qed

lemma refreshCycle_nodes:
  "nodes (snd (fst (refreshCycle env rpc geo now s)))
     = nodes (fst (refreshNodes geo now (Inr (snd (getPnodeGossip env rpc now (fst s)))) (snd s)))"
  by (simp add: refreshCycle_def case_prod_beta)

lemmas hook_eval =
  refreshNodes_def sort_by_def compareNodes_def healthOrder_def computeStats_def nodesWithIpOf_def
  truthy_def enrichNodeWithGeo_def getGeoLocation_def geo_skipped_def startsWith_def
  Math_round_def initialState_def healthy_record_def loopback_record_def private_record_def

text \<open>
  \<open>getPnodeGossip\<close> never hands the hook an empty list, so no cycle takes the branch
  of \<open>refreshNodes\<close> for an empty result: every cycle ends connected, with the
  statistics of the nodes it fetched.
\<close>

lemma refreshCycle_connected:
  "connectionStatus (snd (fst (refreshCycle env rpc geo now s))) = Connected
   \<and> loading (snd (fst (refreshCycle env rpc geo now s))) = False
   \<and> stats (snd (fst (refreshCycle env rpc geo now s)))
       = computeStats (sort_by compareNodes (snd (getPnodeGossip env rpc now (fst s))))
   \<and> 0 < totalNodes (stats (snd (fst (refreshCycle env rpc geo now s))))"
proof -
  let ?fetched = "snd (getPnodeGossip env rpc now (fst s))"
  have ne: "?fetched \<noteq> []"
    by (rule getPnodeGossip_nonempty)
  then have "0 < length (sort_by compareNodes ?fetched)"
    using sort_by_filter [of "\<lambda>n. True" compareNodes ?fetched] by simp
  with ne show ?thesis
    by (simp add: refreshCycle_def refreshNodes_def case_prod_beta Let_def computeStats_def)
qed

text \<open>
  C6, as amended. The candidates of a cycle are the first 17 nodes, in sorted order,
  that have a non-empty address. An address that \<open>getGeoLocation\<close> skips (0.0.0.0, 127.0.0.1, or one that
  starts with 10. or 192.168.) does not keep a node out of the selection, but no request
  is sent for it. At most 17 requests are sent, and when the fetched records carry no
  location, as those of \<open>getPnodeGossip\<close> always do, at most 17 nodes have a location
  when the cycle has ended.
\<close>

theorem enrichment_cap:
  "length (nodesWithIpOf sortedNodes) \<le> 17
   \<and> nodesWithIpOf sortedNodes
       = take 17 (filter (\<lambda>n. ip n \<noteq> None \<and> ip n \<noteq> Some []) sortedNodes)
   \<and> length (filter is_request (snd (refreshNodes geo now (Inr fetched) st))) \<le> 17
   \<and> list_all request_allowed (snd (refreshNodes geo now (Inr fetched) st))
   \<and> (fetched \<noteq> [] \<and> list_all (\<lambda>n. location n = None) fetched \<longrightarrow>
        length (filter is_located (nodes (fst (refreshNodes geo now (Inr fetched) st)))) \<le> 17)
   \<and> length (filter is_located (nodes (snd (fst (refreshCycle env rpc geo now s))))) \<le> 17"
proof -
  have a: "length (nodesWithIpOf sortedNodes) \<le> 17"
    by (rule nodesWithIpOf_bound)
  have b: "nodesWithIpOf sortedNodes
       = take 17 (filter (\<lambda>n. ip n \<noteq> None \<and> ip n \<noteq> Some []) sortedNodes)"
    by (rule nodesWithIpOf_selection)
  have c: "length (filter is_request (snd (refreshNodes geo now (Inr fetched) st))) \<le> 17"
    unfolding refreshNodes_events
    using sequential_enrichment_request_count [of "candidate_addresses fetched"]
      candidate_addresses_bound [of fetched]
    by simp
  have d: "list_all request_allowed (snd (refreshNodes geo now (Inr fetched) st))"
    unfolding refreshNodes_events by (rule sequential_enrichment_allowed)
  have none: "\<And>xs. list_all (\<lambda>n. location n = None) xs \<Longrightarrow> filter is_located xs = []"
    by (simp add: list_all_iff is_located_def)
  have e: "fetched \<noteq> [] \<and> list_all (\<lambda>n. location n = None) fetched \<longrightarrow>
        length (filter is_located (nodes (fst (refreshNodes geo now (Inr fetched) st)))) \<le> 17"
    using refreshNodes_located [of geo now fetched st] none [of fetched] by auto
  let ?fetched = "snd (getPnodeGossip env rpc now (fst s))"
  have "list_all (\<lambda>n. location n = None) ?fetched"
    unfolding list_all_iff using getPnodeGossip_unlocated by blast
  moreover have "?fetched \<noteq> []"
    by (rule getPnodeGossip_nonempty)
  ultimately have f: "length (filter is_located (nodes (snd (fst (refreshCycle env rpc geo now s))))) \<le> 17"
    unfolding refreshCycle_nodes
    using refreshNodes_located [of geo now ?fetched "snd s"] none [of ?fetched] by auto
  show ?thesis
    by (intro conjI a b c d e f)
qed

theorem enrichment_cap_witness:
  "[loopback_record, healthy_record] \<noteq> []
   \<and> list_all (\<lambda>n. location n = None) [loopback_record, healthy_record]
   \<and> nodesWithIpOf (sort_by compareNodes [loopback_record, healthy_record])
       = [loopback_record, healthy_record]
   \<and> snd (refreshNodes geo_answers 0 (Inr [loopback_record, healthy_record]) initialState)
       = [Geo_lookup ''127.0.0.1'', Pause 1500, Geo_lookup ''1.2.3.4'', Geo_request ''1.2.3.4'']
   \<and> map location
        (nodes (fst (refreshNodes geo_answers 0 (Inr [loopback_record, healthy_record]) initialState)))
       = [None, Some somewhere]"
  using enrichment_cap [of "sort_by compareNodes [loopback_record, healthy_record]" geo_answers 0
      "[loopback_record, healthy_record]" initialState no_endpoint all_null
      "(fresh_service, initialState)"]
  by (simp add: hook_eval geo_answers_def)

text \<open>
  C6 as stated fails: a node at the loopback address is selected as a candidate.
\<close>

theorem loopback_selected_counterexample:
  "ip loopback_record = Some ''127.0.0.1''
   \<and> geo_skipped ''127.0.0.1''
   \<and> nodesWithIpOf (sort_by compareNodes [loopback_record]) = [loopback_record]
   \<and> candidate_addresses [loopback_record] = [''127.0.0.1'']"
  by (simp add: candidate_addresses_def nodesWithIpOf_def sort_by_def truthy_def geo_skipped_def
      loopback_record_def healthy_record_def)

lemma sequential_enrichment_paused: "paused_between False (sequential_enrichment as)"
  by (induction as rule: sequential_enrichment.induct) (simp_all add: lookup_events_def)

text \<open>
  C9, as amended. The enrichment runs one candidate after the other, in order: the
  lookup of the first candidate, a pause of 1.5 s, the lookup of the second, and so on,
  with a pause between any two consecutive lookups and none after the last lookup. A
  lookup sends one request at once, or none when its address is skipped. So a pause of
  1.5 s lies between any two requests, and when no candidate is skipped the requests
  alternate with the pauses and no pause follows the last request.
\<close>

theorem enrichment_sequential:
  "snd (refreshNodes geo now (Inr fetched) st) = sequential_enrichment (candidate_addresses fetched)
   \<and> filter (\<lambda>e. \<not> is_request e) (snd (refreshNodes geo now (Inr fetched) st))
       = alternating Geo_lookup (candidate_addresses fetched)
   \<and> paused_between False (snd (refreshNodes geo now (Inr fetched) st))
   \<and> (list_all (\<lambda>a. \<not> geo_skipped a) (candidate_addresses fetched) \<longrightarrow>
        filter (\<lambda>e. \<not> is_lookup e) (snd (refreshNodes geo now (Inr fetched) st))
          = alternating Geo_request (candidate_addresses fetched))"
  unfolding refreshNodes_events
  using sequential_enrichment_lookups sequential_enrichment_requests sequential_enrichment_paused
  by blast

theorem enrichment_sequential_witness:
  "candidate_addresses [healthy_record, private_record] = [''1.2.3.4'', ''172.16.0.1'']
   \<and> list_all (\<lambda>a. \<not> geo_skipped a) [''1.2.3.4'', ''172.16.0.1'']
   \<and> snd (refreshNodes geo_answers 0 (Inr [healthy_record, private_record]) initialState)
       = [Geo_lookup ''1.2.3.4'', Geo_request ''1.2.3.4'', Pause 1500,
          Geo_lookup ''172.16.0.1'', Geo_request ''172.16.0.1'']
   \<and> filter (\<lambda>e. \<not> is_lookup e)
        (snd (refreshNodes geo_answers 0 (Inr [healthy_record, private_record]) initialState))
       = [Geo_request ''1.2.3.4'', Pause 1500, Geo_request ''172.16.0.1'']"
proof -
  have c: "candidate_addresses [healthy_record, private_record] = [''1.2.3.4'', ''172.16.0.1'']"
    by (simp add: candidate_addresses_def nodesWithIpOf_def sort_by_def compareNodes_def
        healthOrder_def truthy_def healthy_record_def private_record_def)
  have s: "list_all (\<lambda>a. \<not> geo_skipped a) [''1.2.3.4'', ''172.16.0.1'']"
    by (simp add: geo_skipped_def startsWith_def)
  from c s show ?thesis
    using enrichment_sequential [of geo_answers 0 "[healthy_record, private_record]" initialState]
    by (simp add: lookup_events_def geo_skipped_def startsWith_def is_lookup_def)
qed

text \<open>
  C9 as stated fails: when the last candidate is at the loopback address, its lookup
  sends no request, and the pause before it follows the last request of the cycle.
\<close>

theorem pause_after_last_request_counterexample:
  "candidate_addresses [healthy_record, loopback_record] = [''1.2.3.4'', ''127.0.0.1'']
   \<and> snd (refreshNodes geo_answers 0 (Inr [healthy_record, loopback_record]) initialState)
       = [Geo_lookup ''1.2.3.4'', Geo_request ''1.2.3.4'', Pause 1500, Geo_lookup ''127.0.0.1'']
   \<and> filter (\<lambda>e. \<not> is_lookup e)
        (snd (refreshNodes geo_answers 0 (Inr [healthy_record, loopback_record]) initialState))
       = [Geo_request ''1.2.3.4'', Pause 1500]"
  by (simp add: candidate_addresses_def hook_eval geo_answers_def is_lookup_def)

end
